theory Spec2Isabelle
  imports Complex_Main "HOL-Library.Sublist" "HOL-Library.Monad_Syntax"
begin

section \<open>JavaScript strings\<close>

text \<open>
  The converter is TypeScript. A JavaScript string is a sequence of UTF-16 code units;
  \<open>length\<close>, \<open>includes\<close>, \<open>split\<close>, \<open>trim\<close> and regular expressions without the
  \<open>u\<close> flag all work on code units, so a string is modelled as the list of its code
  units. ASCII literals are written through \<open>js\<close>; other characters by their code.
\<close>

type_synonym jsstring = "nat list"

definition js :: "string \<Rightarrow> jsstring" where
  "js s = map of_char s"

definition LF :: nat where "LF = 10"
definition CR :: nat where "CR = 13"
definition BEL :: nat where "BEL = 7"
definition ESC :: nat where "ESC = 27"

text \<open>The glyphs the source names: U+279C, U+2192, U+2717, U+2713, U+2502.\<close>

definition ARROW_HEAVY :: nat where "ARROW_HEAVY = 10140"
definition ARROW_RIGHT :: nat where "ARROW_RIGHT = 8594"
definition BALLOT_X :: nat where "BALLOT_X = 10007"
definition CHECK_MARK :: nat where "CHECK_MARK = 10003"
definition BOX_VERTICAL :: nat where "BOX_VERTICAL = 9474"

fun in_ranges :: "(nat \<times> nat) list \<Rightarrow> nat \<Rightarrow> bool" where
  "in_ranges [] c = False"
| "in_ranges ((lo, hi) # rs) c = ((lo \<le> c \<and> c \<le> hi) \<or> in_ranges rs c)"

text \<open>
  White space of \<open>String.prototype.trim\<close> and of the class \<open>\s\<close> (the same set:
  WhiteSpace and LineTerminator of ECMAScript).
\<close>

definition ws_ranges :: "(nat \<times> nat) list" where
  "ws_ranges = [(9, 13), (32, 32), (160, 160), (5760, 5760), (8192, 8202),
                (8232, 8233), (8239, 8239), (8287, 8287), (12288, 12288), (65279, 65279)]"

definition is_space :: "nat \<Rightarrow> bool" where
  "is_space c = in_ranges ws_ranges c"

definition trim :: "jsstring \<Rightarrow> jsstring" where
  "trim s = rev (dropWhile is_space (rev (dropWhile is_space s)))"

fun is_prefix :: "jsstring \<Rightarrow> jsstring \<Rightarrow> bool" where
  "is_prefix [] s = True"
| "is_prefix (p # ps) [] = False"
| "is_prefix (p # ps) (c # cs) = (p = c \<and> is_prefix ps cs)"

definition startsWith :: "jsstring \<Rightarrow> jsstring \<Rightarrow> bool" where
  "startsWith s p = is_prefix p s"

definition endsWith :: "jsstring \<Rightarrow> jsstring \<Rightarrow> bool" where
  "endsWith s p = is_prefix (rev p) (rev s)"

fun includes_str :: "jsstring \<Rightarrow> jsstring \<Rightarrow> bool" where
  "includes_str [] p = (p = [])"
| "includes_str (c # cs) p = (is_prefix p (c # cs) \<or> includes_str cs p)"

text \<open>\<open>s.split(c)\<close> for a one-character separator; the empty string gives one empty piece.\<close>

fun split_char :: "nat \<Rightarrow> jsstring \<Rightarrow> jsstring list" where
  "split_char sep [] = [[]]"
| "split_char sep (c # cs) =
     (if c = sep then [] # split_char sep cs
      else (case split_char sep cs of
              [] \<Rightarrow> [[c]]
            | p # ps \<Rightarrow> (c # p) # ps))"

text \<open>\<open>xs.join(sep)\<close>.\<close>

fun join :: "jsstring \<Rightarrow> jsstring list \<Rightarrow> jsstring" where
  "join sep [] = []"
| "join sep [x] = x"
| "join sep (x # y # ys) = x @ sep @ join sep (y # ys)"

section \<open>Regular expressions\<close>

text \<open>
  The regular expressions of the source are kept as terms and run by one backtracking
  matcher. \<open>ms r s\<close> lists the remainders of \<open>s\<close> after each way \<open>r\<close> can match a prefix
  of \<open>s\<close>, in the order in which a backtracking engine tries them (quantifiers are
  greedy, the left alternative first), so the head of the list is the match JavaScript
  reports at this position. \<open>Cls True rs\<close> is the class of the ranges \<open>rs\<close>,
  \<open>Cls False rs\<close> its complement.
\<close>

datatype re =
    Cls bool "(nat \<times> nat) list"
  | Lit jsstring
  | Seq re re
  | Alt re re
  | Star re
  | Opt re

fun ms :: "re \<Rightarrow> jsstring \<Rightarrow> jsstring list" where
  "ms (Cls pos rs) [] = []"
| "ms (Cls pos rs) (c # t) = (if in_ranges rs c = pos then [t] else [])"
| "ms (Lit l) s = (if is_prefix l s then [drop (length l) s] else [])"
| "ms (Seq a b) s = concat (map (ms b) (ms a s))"
| "ms (Alt a b) s = ms a s @ ms b s"
| "ms (Opt a) s = ms a s @ [s]"
| "ms (Star a) s =
     concat (map (\<lambda>t. if length t < length s then ms (Star a) t else []) (ms a s)) @ [s]"

definition Plus :: "re \<Rightarrow> re" where
  "Plus a = Seq a (Star a)"

fun seqs :: "re list \<Rightarrow> re" where
  "seqs [] = Lit []"
| "seqs [r] = r"
| "seqs (r # rs) = Seq r (seqs rs)"

fun alts :: "re list \<Rightarrow> re" where
  "alts [] = Cls True []"
| "alts [r] = r"
| "alts (r # rs) = Alt r (alts rs)"

definition chars :: "string \<Rightarrow> (nat \<times> nat) list" where
  "chars s = map (\<lambda>c. (of_char c, of_char c)) s"

definition rng :: "char \<Rightarrow> char \<Rightarrow> nat \<times> nat" where
  "rng a b = (of_char a, of_char b)"

definition one :: "nat \<Rightarrow> re" where
  "one c = Cls True [(c, c)]"

definition none_of :: "nat list \<Rightarrow> re" where
  "none_of cs = Cls False (map (\<lambda>c. (c, c)) cs)"

definition str :: "string \<Rightarrow> re" where
  "str s = Lit (js s)"

definition re_s :: re where "re_s = Cls True ws_ranges"
definition re_S :: re where "re_S = Cls False ws_ranges"
definition re_d :: re where "re_d = Cls True [rng CHR ''0'' CHR ''9'']"

text \<open>\<open>.\<close> matches everything but the line terminators LF, CR, U+2028 and U+2029.\<close>

definition re_dot :: re where "re_dot = Cls False [(10, 10), (13, 13), (8232, 8233)]"

definition letters :: "(nat \<times> nat) list" where
  "letters = [rng CHR ''A'' CHR ''Z'', rng CHR ''a'' CHR ''z'']"

text \<open>\<open>/^r/.test(s)\<close>, \<open>/^r$/.test(s)\<close> and \<open>/r/.test(s)\<close> (no \<open>m\<close> flag anywhere in the source).\<close>

definition test_start :: "re \<Rightarrow> jsstring \<Rightarrow> bool" where
  "test_start r s = (ms r s \<noteq> [])"

definition test_full :: "re \<Rightarrow> jsstring \<Rightarrow> bool" where
  "test_full r s = ([] \<in> set (ms r s))"

fun test_any :: "re \<Rightarrow> jsstring \<Rightarrow> bool" where
  "test_any r [] = (ms r [] \<noteq> [])"
| "test_any r (c # t) = (ms r (c # t) \<noteq> [] \<or> test_any r t)"

text \<open>\<open>s.replace(/^r/, '')\<close>: the first match at the start, if any, is cut off.\<close>

definition replace_start :: "re \<Rightarrow> jsstring \<Rightarrow> jsstring" where
  "replace_start r s = (case ms r s of [] \<Rightarrow> s | m # _ \<Rightarrow> m)"

text \<open>
  \<open>s.replace(/r/g, rep)\<close>: matches are looked for from left to right, each search starting
  where the last match ended; after an empty match one code unit is copied.
\<close>

fun replace_all :: "re \<Rightarrow> jsstring \<Rightarrow> jsstring \<Rightarrow> jsstring" where
  "replace_all r rep [] = (if ms r [] \<noteq> [] then rep else [])"
| "replace_all r rep (c # t) =
     (case ms r (c # t) of
        [] \<Rightarrow> c # replace_all r rep t
      | m # _ \<Rightarrow>
          if length m < length (c # t) then rep @ replace_all r rep m
          else rep @ c # replace_all r rep t)"

text \<open>
  \<open>s.split(/r/)\<close> for a pattern without capture groups: \<open>cur\<close> is the piece collected
  since the last separator. A match is a separator unless it is empty and the piece is
  empty too.
\<close>

fun split_loop :: "re \<Rightarrow> jsstring \<Rightarrow> jsstring \<Rightarrow> jsstring list" where
  "split_loop r cur [] = [cur]"
| "split_loop r cur (c # t) =
     (case ms r (c # t) of
        [] \<Rightarrow> split_loop r (cur @ [c]) t
      | m # _ \<Rightarrow>
          if length m < length (c # t) then cur # split_loop r [] m
          else if cur = [] then split_loop r [c] t
          else cur # split_loop r [c] t)"

definition split_re :: "re \<Rightarrow> jsstring \<Rightarrow> jsstring list" where
  "split_re r s = (if s = [] then (if ms r [] \<noteq> [] then [] else [[]]) else split_loop r [] s)"

text \<open>
  \<open>/^p(q)$/.exec(s)\<close> with one capture group at the end of the pattern: the captured
  text is the first remainder of \<open>p\<close> that \<open>q\<close> can match up to the end of the string.
\<close>

definition exec_tail :: "re \<Rightarrow> re \<Rightarrow> jsstring \<Rightarrow> jsstring option" where
  "exec_tail p q s = find (\<lambda>m. test_full q m) (ms p s)"

section \<open>The escape and noise stripper\<close>

text \<open>
  \<open>stripAnsiCodes\<close> first runs sixteen global replacements by the empty string, in this
  order. Each pattern is given with the source's regular expression.
\<close>

definition digit_or :: "string \<Rightarrow> re" where
  "digit_or s = Cls True (rng CHR ''0'' CHR ''9'' # chars s)"

text \<open>\<^verbatim>\<open>/\x1B\][^\x07\x1B]*(?:\x07|\x1B\\)/g\<close>\<close>
definition osc_esc :: re where
  "osc_esc = seqs [one ESC, str '']'', Star (none_of [BEL, ESC]),
                   Alt (one BEL) (Seq (one ESC) (one 92))]"

text \<open>\<^verbatim>\<open>/\][0-9]{1,4};[^\x07]*\x07/g\<close>\<close>
definition osc_bare :: re where
  "osc_bare = seqs [str '']'', re_d, Opt (Seq re_d (Opt (Seq re_d (Opt re_d)))), str '';'',
                    Star (none_of [BEL]), one BEL]"

text \<open>\<^verbatim>\<open>/\x1B\[[0-9;?]*[A-Za-z]/g\<close>\<close>
definition csi_esc :: re where
  "csi_esc = seqs [one ESC, str ''['', Star (digit_or '';?''), Cls True letters]"

text \<open>\<^verbatim>\<open>/\[[\?><!][0-9;]*[A-Za-z]/g\<close>\<close>
definition csi_bare :: re where
  "csi_bare = seqs [str ''['', Cls True (chars ''?><!''), Star (digit_or '';''), Cls True letters]"

text \<open>\<^verbatim>\<open>/\x1B[=>]/g\<close>\<close>
definition esc_keypad :: re where
  "esc_keypad = Seq (one ESC) (Cls True (chars ''=>''))"

text \<open>\<^verbatim>\<open>/\x1B[\[\]()#;?]*[0-9;]*[A-Za-z@]/g\<close>\<close>
definition esc_other :: re where
  "esc_other = seqs [one ESC, Star (Cls True (chars ''[]()#;?'')), Star (digit_or '';''),
                     Cls True (letters @ chars ''@'')]"

text \<open>\<^verbatim>\<open>/\x1B\]1337;[^\x07]*\x07/g\<close>\<close>
definition iterm_esc :: re where
  "iterm_esc = seqs [one ESC, str '']1337;'', Star (none_of [BEL]), one BEL]"

text \<open>\<^verbatim>\<open>/\x1B\]133;[^\x07]*\x07/g\<close>\<close>
definition mark_esc :: re where
  "mark_esc = seqs [one ESC, str '']133;'', Star (none_of [BEL]), one BEL]"

text \<open>\<^verbatim>\<open>/\]133;[A-Z];?[0-9]*/g\<close>\<close>
definition mark_bare :: re where
  "mark_bare = seqs [str '']133;'', Cls True [rng CHR ''A'' CHR ''Z''], Opt (str '';''), Star re_d]"

text \<open>\<^verbatim>\<open>/\]1337;[^\n]*/g\<close>\<close>
definition iterm_bare :: re where
  "iterm_bare = seqs [str '']1337;'', Star (none_of [LF])]"

text \<open>\<^verbatim>\<open>/\[[\?>][0-9;]+[hlm]/g\<close>\<close>
definition mode_bare :: re where
  "mode_bare = seqs [str ''['', Cls True (chars ''?>''), Plus (digit_or '';''), Cls True (chars ''hlm'')]"

text \<open>\<^verbatim>\<open>/\[<[0-9;]+[A-Za-z]/g\<close>\<close>
definition mouse_bare :: re where
  "mouse_bare = seqs [str ''[<'', Plus (digit_or '';''), Cls True letters]"

text \<open>\<^verbatim>\<open>/[\u2800-\u28FF]/g\<close>, and once more with the two glyphs written out.\<close>
definition braille :: re where
  "braille = Cls True [(10240, 10495)]"

text \<open>\<^verbatim>\<open>/[\x00-\x08\x0B-\x0C\x0E-\x1F\x7F]/g\<close>\<close>
definition control :: re where
  "control = Cls True [(0, 8), (11, 12), (14, 31), (127, 127)]"

definition removal_passes :: "re list" where
  "removal_passes =
     [osc_esc, osc_bare, csi_esc, csi_bare, esc_keypad, esc_other, iterm_esc, mark_esc,
      mark_bare, iterm_bare, mode_bare, mouse_bare, braille, braille, control, one CR]"

definition strip_sequences :: "jsstring \<Rightarrow> jsstring" where
  "strip_sequences text = foldl (\<lambda>clean r. replace_all r [] clean) text removal_passes"

text \<open>
  First pass over the lines. \<open>collapse_line\<close> gives what the loop body pushes for one
  line: nothing or one line.

  \<^verbatim>\<open>/^%\s+[arrow]\s+\S+\s+(.+)$/\<close>, \<^verbatim>\<open>/^%\s+[arrow]\s+\S+\s*$/\<close> and \<^verbatim>\<open>/\s{2,}/\<close>,
  where [arrow] is U+279C.
\<close>

definition prompt_prefix :: re where
  "prompt_prefix = seqs [str ''%'', Plus re_s, one ARROW_HEAVY, Plus re_s, Plus re_S, Plus re_s]"

definition justPrompt :: re where
  "justPrompt = seqs [str ''%'', Plus re_s, one ARROW_HEAVY, Plus re_s, Plus re_S, Star re_s]"

definition two_spaces :: re where
  "two_spaces = seqs [re_s, re_s, Star re_s]"

text \<open>
  \<open>[...new Set(xs)]\<close> keeps the first of equal elements and \<open>remdups\<close> the last; only the
  number of distinct elements is used.
\<close>

definition collapse_line :: "jsstring \<Rightarrow> jsstring list" where
  "collapse_line line =
     (case exec_tail prompt_prefix (Plus re_dot) line of
        Some cmd \<Rightarrow> (if trim cmd \<noteq> [] then [trim cmd] else [])
      | None \<Rightarrow>
          if test_full justPrompt line then []
          else
            let parts = split_re two_spaces line in
            if length parts > 3 then
              let uniqueParts = remdups (filter (\<lambda>p. p \<noteq> []) (map trim parts)) in
              if length uniqueParts = 1 \<or> length uniqueParts = 2 then
                (let lastPart = trim (last parts) in
                 if lastPart \<noteq> [] then [lastPart] else [])
              else [line]
            else [line])"

text \<open>
  Second pass: the filter. \<open>prev\<close> is \<open>collapsed[index - 1]\<close> (absent at index 0),
  \<open>rest\<close> the lines after the current one.

  \<^verbatim>\<open>/^(Preparing|Writing|Starting|Installing|Joining)/\<close>
\<close>

definition progressPattern :: re where
  "progressPattern =
     alts [str ''Preparing'', str ''Writing'', str ''Starting'', str ''Installing'', str ''Joining'']"

text \<open>The look-ahead loop: True when it returns false from the filter callback.\<close>

fun completed_ahead :: "jsstring list \<Rightarrow> bool" where
  "completed_ahead [] = False"
| "completed_ahead (l # ls) =
     (let nextTrimmed = trim l in
      if includes_str nextTrimmed [CHECK_MARK] \<and> test_start progressPattern nextTrimmed then True
      else if nextTrimmed \<noteq> [] \<and> \<not> test_start progressPattern nextTrimmed then False
      else completed_ahead ls)"

text \<open>
  \<^verbatim>\<open>/^[>\[<\]]+$/\<close>, \<^verbatim>\<open>/^%\s*$/\<close>, \<^verbatim>\<open>/^\d+ms\s+\d+[smh]\s+ago/\<close>, \<^verbatim>\<open>/ago[a-z]+[A-Z]/\<close>
  and \<^verbatim>\<open>/^[arrows]\s+\S+\s+\//\<close>, where [arrows] are U+279C, U+2192 and U+2717.
\<close>

definition remnants :: re where
  "remnants = Plus (Cls True (chars ''>[<]''))"

definition bare_percent :: re where
  "bare_percent = Seq (str ''%'') (Star re_s)"

definition ago_line :: re where
  "ago_line = seqs [Plus re_d, str ''ms'', Plus re_s, Plus re_d, Cls True (chars ''smh''),
                    Plus re_s, str ''ago'']"

definition ago_glued :: re where
  "ago_glued = seqs [str ''ago'', Plus (Cls True [rng CHR ''a'' CHR ''z'']),
                      Cls True [rng CHR ''A'' CHR ''Z'']]"

definition glyphs :: re where
  "glyphs = Cls True [(ARROW_HEAVY, ARROW_HEAVY), (ARROW_RIGHT, ARROW_RIGHT), (BALLOT_X, BALLOT_X)]"

definition prompt_path :: re where
  "prompt_path = seqs [glyphs, Plus re_s, Plus re_S, Plus re_s, str ''/'']"

definition keep_line :: "jsstring option \<Rightarrow> jsstring \<Rightarrow> jsstring list \<Rightarrow> bool" where
  "keep_line prev line rest =
     (let trimmed = trim line in
      if trimmed = [] then True
      else if test_full remnants trimmed then False
      else if test_full bare_percent trimmed then False
      else if includes_str trimmed (js ''Atuin v'') \<or> includes_str trimmed (js ''<esc>: exit'')
        then False
      else if includes_str trimmed (js ''Search'' @ [BOX_VERTICAL] @ js ''Inspect'')
              \<or> includes_str trimmed (js ''history count:'')
        then False
      else if includes_str trimmed (js ''[GLOBAL]'') then False
      else if test_start ago_line trimmed then False
      else if test_any ago_glued trimmed then False
      else if test_start progressPattern trimmed \<and> \<not> includes_str trimmed [CHECK_MARK]
              \<and> completed_ahead rest
        then False
      else if (case prev of
                 None \<Rightarrow> False
               | Some p \<Rightarrow> trim p = trimmed \<and> length trimmed > 10)
        then False
      else if test_start prompt_path trimmed then False
      else True)"

fun filter_lines :: "jsstring option \<Rightarrow> jsstring list \<Rightarrow> jsstring list" where
  "filter_lines prev [] = []"
| "filter_lines prev (l # ls) =
     (if keep_line prev l ls then l # filter_lines (Some l) ls else filter_lines (Some l) ls)"

text \<open>\<^verbatim>\<open>/\n{3,}/g\<close>\<close>
definition blank_run :: re where
  "blank_run = seqs [one LF, one LF, one LF, Star (one LF)]"

definition stripAnsiCodes :: "jsstring \<Rightarrow> jsstring" where
  "stripAnsiCodes text =
     (let clean = strip_sequences text;
          lines = split_char LF clean;
          collapsed = concat (map collapse_line lines);
          filtered = filter_lines None collapsed
      in replace_all blank_run [LF, LF] (join [LF] filtered))"

section \<open>The command and output classifier\<close>

text \<open>
  \<open>isCommandLine\<close>. The first test has the \<open>u\<close> flag, so it looks at the first code point
  of the line (a surrogate pair counts as one): U+1F52E, U+2139, U+FE0F, U+2713, U+1F7E5,
  U+26A0.
\<close>

definition first_code_point :: "jsstring \<Rightarrow> nat option" where
  "first_code_point s =
     (case s of
        [] \<Rightarrow> None
      | [c] \<Rightarrow> Some c
      | c # d # _ \<Rightarrow>
          if 55296 \<le> c \<and> c \<le> 56319 \<and> 56320 \<le> d \<and> d \<le> 57343
          then Some (65536 + (c - 55296) * 1024 + (d - 56320))
          else Some c)"

definition output_glyphs :: "nat list" where
  "output_glyphs = [128302, 8505, 65039, 10003, 128997, 9888, 65039]"

text \<open>
  A literal under the \<open>i\<close> flag: an ASCII letter matches in both cases; without the \<open>u\<close>
  flag no character outside ASCII is folded onto an ASCII one.
\<close>

definition ci_char :: "char \<Rightarrow> re" where
  "ci_char c =
     (let n = of_char c in
      if 65 \<le> n \<and> n \<le> 90 then Cls True [(n, n), (n + 32, n + 32)]
      else if 97 \<le> n \<and> n \<le> 122 then Cls True [(n - 32, n - 32), (n, n)]
      else one n)"

definition ci :: "string \<Rightarrow> re" where
  "ci s = seqs (map ci_char s)"

text \<open>\<^verbatim>\<open>/^(Creating|Set|You can|Have a|Total|Kubernetes|CoreDNS|To further|I\d{4})/i\<close>\<close>
definition output_openers :: re where
  "output_openers =
     alts [ci ''Creating'', ci ''Set'', ci ''You can'', ci ''Have a'', ci ''Total'', ci ''Kubernetes'',
           ci ''CoreDNS'', ci ''To further'', seqs [ci ''I'', re_d, re_d, re_d, re_d]]"

text \<open>\<^verbatim>\<open>/^[A-Z][a-z]+.*:/\<close>\<close>
definition capitalized_colon :: re where
  "capitalized_colon =
     seqs [Cls True [rng CHR ''A'' CHR ''Z''], Plus (Cls True [rng CHR ''a'' CHR ''z'']),
           Star re_dot, str '':'']"

text \<open>\<^verbatim>\<open>/^[\$#]\s/\<close>\<close>
definition shell_prompt :: re where
  "shell_prompt = Seq (Cls True (chars ''$#'')) re_s"

definition word_chars :: "(nat \<times> nat) list" where
  "word_chars = [rng CHR ''a'' CHR ''z'', rng CHR ''A'' CHR ''Z'', rng CHR ''0'' CHR ''9''] @ chars ''_-''"

text \<open>\<^verbatim>\<open>/^[a-zA-Z_][a-zA-Z0-9_-]*@[a-zA-Z0-9_-]+[:#~]/\<close>\<close>
definition user_at_host :: re where
  "user_at_host =
     seqs [Cls True ([rng CHR ''a'' CHR ''z'', rng CHR ''A'' CHR ''Z''] @ chars ''_''),
           Star (Cls True word_chars), str ''@'', Plus (Cls True word_chars),
           Cls True (chars '':#~'')]"

text \<open>\<^verbatim>\<open>/^[arrows]\s+[a-zA-Z0-9_-]+\s+/\<close>\<close>
definition decorated_prompt :: re where
  "decorated_prompt = seqs [glyphs, Plus re_s, Plus (Cls True word_chars), Plus re_s]"

definition commonCommands :: "jsstring list" where
  "commonCommands = map js
     [''ls'', ''cd'', ''pwd'', ''mkdir'', ''rm'', ''cp'', ''mv'', ''cat'', ''echo'', ''grep'', ''find'',
      ''kubectl'', ''docker'', ''git'', ''npm'', ''yarn'', ''curl'', ''wget'', ''make'', ''go'',
      ''python'', ''node'', ''java'', ''cargo'', ''brew'', ''apt'', ''yum'', ''systemctl'',
      ''kind'', ''helm'', ''cilium'', ''terraform'', ''ansible'', ''ssh'', ''scp'', ''rsync'',
      ''vi'', ''vim'', ''nano'', ''emacs'', ''less'', ''more'', ''head'', ''tail'', ''awk'', ''sed'']"

text \<open>
  The block under the capitalized-word-then-colon test returns only for a line that
  contains \<open>cilium image\<close>; any other line falls through to the tests that follow.
\<close>

definition isCommandLine :: "jsstring \<Rightarrow> bool" where
  "isCommandLine line =
     (let trimmed = trim line in
      if trimmed = [] then False
      else if (case first_code_point trimmed of None \<Rightarrow> False | Some p \<Rightarrow> p \<in> set output_glyphs)
        then False
      else if test_start output_openers trimmed then False
      else if startsWith trimmed (js ''==>'') \<or> startsWith trimmed (js ''---'') then False
      else if test_start capitalized_colon trimmed \<and> \<not> includes_str trimmed (js ''$'')
              \<and> \<not> includes_str trimmed (js ''#'') \<and> includes_str trimmed (js ''cilium image'')
        then False
      else if test_start shell_prompt trimmed then True
      else if test_start user_at_host trimmed then True
      else if test_start decorated_prompt trimmed then True
      else if (case split_re (Plus re_s) trimmed of
                 [] \<Rightarrow> False
               | potentialCommand # _ \<Rightarrow> potentialCommand \<in> set commonCommands)
              \<and> \<not> test_start (Cls True [rng CHR ''A'' CHR ''Z'']) trimmed
              \<and> (\<not> includes_str trimmed (js '':'') \<or> includes_str trimmed (js ''--''))
        then True
      else if test_start (Cls True (chars ''./~'')) trimmed then True
      else False)"

text \<open>
  \<open>extractCommand\<close>: four replacements at the start of the trimmed line.
  \<^verbatim>\<open>/^[arrows]\s+[^\s]+\s+/\<close>,
  \<^verbatim>\<open>/^[a-zA-Z_][a-zA-Z0-9_-]*@[a-zA-Z0-9_-]+:[^\$#]*[\$#]\s*/\<close>,
  \<^verbatim>\<open>/^[\$#]\s*/\<close> and \<^verbatim>\<open>/^m\s+/\<close>.
\<close>

definition omz_prefix :: re where
  "omz_prefix = seqs [glyphs, Plus re_s, Plus re_S, Plus re_s]"

definition user_host_prefix :: re where
  "user_host_prefix =
     seqs [Cls True ([rng CHR ''a'' CHR ''z'', rng CHR ''A'' CHR ''Z''] @ chars ''_''),
           Star (Cls True word_chars), str ''@'', Plus (Cls True word_chars), str '':'',
           Star (Cls False (chars ''$#'')), Cls True (chars ''$#''), Star re_s]"

definition prompt_symbol :: re where
  "prompt_symbol = Seq (Cls True (chars ''$#'')) (Star re_s)"

definition m_artifact :: re where
  "m_artifact = Seq (str ''m'') (Plus re_s)"

definition extractCommand :: "jsstring \<Rightarrow> jsstring" where
  "extractCommand line =
     replace_start m_artifact
       (replace_start prompt_symbol
         (replace_start user_host_prefix
           (replace_start omz_prefix (trim line))))"

datatype block_type = Command | Output

record block =
  btype :: block_type
  content :: jsstring

text \<open>
  \<open>parseTerminalOutput\<close>: the loop body as a step on the pair of \<open>blocks\<close> and
  \<open>currentBlock\<close> (\<open>None\<close> for \<open>null\<close>).
\<close>

definition parse_step :: "block list \<times> block option \<Rightarrow> jsstring \<Rightarrow> block list \<times> block option" where
  "parse_step st line =
     (let blocks = fst st; currentBlock = snd st in
      if trim line = [] then
        (case currentBlock of
           None \<Rightarrow> (blocks, None)
         | Some b \<Rightarrow>
             if btype b = Output then (blocks, Some (b\<lparr>content := content b @ [LF]\<rparr>))
             else (blocks, Some b))
      else if isCommandLine line then
        (let saved = (case currentBlock of None \<Rightarrow> blocks | Some b \<Rightarrow> blocks @ [b]);
             command = extractCommand line
         in if command \<noteq> []
            then (saved, Some \<lparr>btype = Command, content = js ''$ '' @ command @ [LF]\<rparr>)
            else (saved, None))
      else
        (case currentBlock of
           None \<Rightarrow> (blocks, Some \<lparr>btype = Output, content = line @ [LF]\<rparr>)
         | Some b \<Rightarrow>
             if btype b = Command
             then (blocks @ [b], Some \<lparr>btype = Output, content = line @ [LF]\<rparr>)
             else (blocks, Some (b\<lparr>content := content b @ line @ [LF]\<rparr>))))"

definition parseTerminalOutput :: "jsstring \<Rightarrow> block list" where
  "parseTerminalOutput output =
     (let st = foldl parse_step ([], None) (split_char LF output) in
      case snd st of
        None \<Rightarrow> fst st
      | Some b \<Rightarrow> fst st @ [b])"

section \<open>JavaScript values\<close>

text \<open>
  A number is the real it denotes, or one of the three values that are not finite; the
  negative zero is not told apart from zero (nothing below could: \<open>toFixed\<close>, property
  keys and \<open>Math.floor\<close> treat them alike). A value is what \<open>JSON.parse\<close> can return,
  and \<open>undefined\<close>. An object is the list of its members in source order; of two members
  with one key the later holds the value.
\<close>

datatype jsnum = Finite real | PosInf | NegInf | NaN

datatype jsval =
    JUndefined
  | JNull
  | JBool bool
  | JNum jsnum
  | JStr jsstring
  | JArr "jsval list"
  | JObj "(jsstring \<times> jsval) list"

text \<open>
  What the converter takes from the JavaScript host and the model leaves open:
  \<open>JSON.parse\<close> (\<open>None\<close> when it throws a SyntaxError), the conversion of a string to a
  number, the digits \<open>Number.prototype.toString\<close> chooses for a finite number that is not
  an integer below \<open>2^53\<close> in absolute value, and the text of
  \<open>new Date(t * 1000).toLocaleString()\<close>, which depends on locale and time zone.
\<close>

record host =
  JSON_parse :: "jsstring \<Rightarrow> jsval option"
  string_to_number :: "jsstring \<Rightarrow> jsnum"
  number_to_string :: "real \<Rightarrow> jsstring"
  date_to_locale_string :: "jsnum \<Rightarrow> jsstring"

fun digits :: "nat \<Rightarrow> jsstring" where
  "digits n = (if n < 10 then [48 + n] else digits (n div 10) @ [48 + n mod 10])"

definition Number_toString :: "host \<Rightarrow> jsnum \<Rightarrow> jsstring" where
  "Number_toString h n =
     (case n of
        NaN \<Rightarrow> js ''NaN''
      | PosInf \<Rightarrow> js ''Infinity''
      | NegInf \<Rightarrow> js ''-Infinity''
      | Finite x \<Rightarrow>
          if x = of_int \<lfloor>x\<rfloor> \<and> \<bar>x\<bar> < 9007199254740992
          then (if x < 0 then js ''-'' else []) @ digits (nat \<bar>\<lfloor>x\<rfloor>\<bar>)
          else number_to_string h x)"

text \<open>
  \<open>ToString\<close>, as a template literal and \<open>+=\<close> on a string apply it. An array joins its
  elements with commas. An object takes \<open>toString\<close> from \<open>Object.prototype\<close>, unless it has
  a member of that name: no value of JSON is callable, so the conversion then throws a
  TypeError (\<open>None\<close>).
\<close>

fun ToString :: "host \<Rightarrow> jsval \<Rightarrow> jsstring option" where
  "ToString h JUndefined = Some (js ''undefined'')"
| "ToString h JNull = Some (js ''null'')"
| "ToString h (JBool b) = Some (if b then js ''true'' else js ''false'')"
| "ToString h (JNum n) = Some (Number_toString h n)"
| "ToString h (JStr s) = Some s"
| "ToString h (JArr xs) =
     map_option (join (js '',''))
       (those (map (\<lambda>x. if x = JUndefined \<or> x = JNull then Some [] else ToString h x) xs))"
| "ToString h (JObj kvs) =
     (if js ''toString'' \<in> set (map fst kvs) then None else Some (js ''[object Object]''))"

fun ToNumber :: "host \<Rightarrow> jsval \<Rightarrow> jsnum option" where
  "ToNumber h JUndefined = Some NaN"
| "ToNumber h JNull = Some (Finite 0)"
| "ToNumber h (JBool b) = Some (Finite (if b then 1 else 0))"
| "ToNumber h (JNum n) = Some n"
| "ToNumber h (JStr s) = Some (string_to_number h s)"
| "ToNumber h (JArr xs) = map_option (string_to_number h) (ToString h (JArr xs))"
| "ToNumber h (JObj kvs) = map_option (string_to_number h) (ToString h (JObj kvs))"

fun truthy :: "jsval \<Rightarrow> bool" where
  "truthy JUndefined = False"
| "truthy JNull = False"
| "truthy (JBool b) = b"
| "truthy (JNum n) = (case n of Finite x \<Rightarrow> x \<noteq> 0 | NaN \<Rightarrow> False | _ \<Rightarrow> True)"
| "truthy (JStr s) = (s \<noteq> [])"
| "truthy (JArr xs) = True"
| "truthy (JObj kvs) = True"

definition Math_floor :: "jsnum \<Rightarrow> jsnum" where
  "Math_floor n = (case n of Finite x \<Rightarrow> Finite (of_int \<lfloor>x\<rfloor>) | _ \<Rightarrow> n)"

definition own :: "(jsstring \<times> jsval) list \<Rightarrow> jsstring \<Rightarrow> jsval" where
  "own kvs k = (case map_of (rev kvs) k of None \<Rightarrow> JUndefined | Some v \<Rightarrow> v)"

text \<open>
  \<open>v.name\<close> for the names the converter reads (\<open>title\<close>, \<open>version\<close>, \<open>width\<close>, \<open>height\<close>,
  \<open>timestamp\<close>, \<open>env\<close>), none of which a built-in prototype defines, and \<open>v[i]\<close> for an
  index. Both throw a TypeError on \<open>null\<close> and \<open>undefined\<close>.
\<close>

fun field :: "jsval \<Rightarrow> jsstring \<Rightarrow> jsval option" where
  "field JUndefined name = None"
| "field JNull name = None"
| "field (JObj kvs) name = Some (own kvs name)"
| "field v name = Some JUndefined"

fun elem :: "jsval \<Rightarrow> nat \<Rightarrow> jsval option" where
  "elem JUndefined i = None"
| "elem JNull i = None"
| "elem (JArr xs) i = Some (if i < length xs then xs ! i else JUndefined)"
| "elem (JStr s) i = Some (if i < length s then JStr [s ! i] else JUndefined)"
| "elem (JObj kvs) i = Some (own kvs (digits i))"
| "elem v i = Some JUndefined"

text \<open>
  \<open>Object.entries\<close>: the keys that are array indices come first, in ascending order, then
  the other keys in the order of their creation.
\<close>

definition key_value :: "jsstring \<Rightarrow> nat" where
  "key_value s = foldl (\<lambda>a c. 10 * a + (c - 48)) 0 s"

definition is_index_key :: "jsstring \<Rightarrow> bool" where
  "is_index_key s =
     (s \<noteq> [] \<and> list_all (\<lambda>c. 48 \<le> c \<and> c \<le> 57) s \<and> (hd s \<noteq> 48 \<or> length s = 1)
      \<and> key_value s \<le> 4294967294)"

definition own_keys :: "(jsstring \<times> jsval) list \<Rightarrow> jsstring list" where
  "own_keys kvs =
     (let ks = rev (remdups (rev (map fst kvs))) in
      sort_key key_value (filter is_index_key ks) @ filter (\<lambda>k. \<not> is_index_key k) ks)"

fun entries :: "jsval \<Rightarrow> (jsstring \<times> jsval) list" where
  "entries (JObj kvs) = map (\<lambda>k. (k, own kvs k)) (own_keys kvs)"
| "entries (JArr xs) = zip (map digits [0..<length xs]) xs"
| "entries (JStr s) = zip (map digits [0..<length s]) (map (\<lambda>c. JStr [c]) s)"
| "entries v = []"

section \<open>The recording parser and the renderer\<close>

record CastEvent =
  time :: jsval
  etype :: jsval
  data :: jsval

text \<open>
  The loop over the lines after the header. The \<open>try\<close> block holds \<open>JSON.parse\<close> and the
  three reads \<open>event[0]\<close>, \<open>event[1]\<close>, \<open>event[2]\<close>; whatever it throws skips the line.
\<close>

fun parse_events :: "host \<Rightarrow> jsstring list \<Rightarrow> CastEvent list" where
  "parse_events h [] = []"
| "parse_events h (l # ls) =
     (if trim l \<noteq> [] then
        (case JSON_parse h l of
           None \<Rightarrow> parse_events h ls
         | Some event \<Rightarrow>
             (case (elem event 0, elem event 1, elem event 2) of
                (Some t, Some ty, Some d) \<Rightarrow>
                  \<lparr>time = t, etype = ty, data = d\<rparr> # parse_events h ls
              | _ \<Rightarrow> parse_events h ls))
      else parse_events h ls)"

text \<open>The aggregation loop; \<open>terminalOutput\<close> is the accumulator.\<close>

fun aggregate_output :: "host \<Rightarrow> jsstring \<Rightarrow> CastEvent list \<Rightarrow> jsstring option" where
  "aggregate_output h terminalOutput [] = Some terminalOutput"
| "aggregate_output h terminalOutput (event # events) =
     (if etype event = JStr (js ''o'') then
        (case ToString h (data event) of
           None \<Rightarrow> None
         | Some s \<Rightarrow> aggregate_output h (terminalOutput @ s) events)
      else aggregate_output h terminalOutput events)"

text \<open>
  \<open>eventsBySecond\<close>. Its keys are the strings of the floored times; a number and the
  string \<open>ToString\<close> gives it determine each other, so the model keys the table by the
  number. The entries are kept in the order of their creation.
\<close>

fun bump :: "(jsnum \<times> nat) list \<Rightarrow> jsnum \<Rightarrow> (jsnum \<times> nat) list" where
  "bump [] k = [(k, 1)]"
| "bump ((k', n) # al) k = (if k' = k then (k', n + 1) # al else (k', n) # bump al k)"

fun eventsBySecond :: "host \<Rightarrow> (jsnum \<times> nat) list \<Rightarrow> CastEvent list \<Rightarrow> (jsnum \<times> nat) list option" where
  "eventsBySecond h al [] = Some al"
| "eventsBySecond h al (event # events) =
     (case ToNumber h (time event) of
        None \<Rightarrow> None
      | Some t \<Rightarrow> eventsBySecond h (bump al (Math_floor t)) events)"

definition is_array_index :: "jsnum \<Rightarrow> bool" where
  "is_array_index k =
     (case k of Finite x \<Rightarrow> x = of_int \<lfloor>x\<rfloor> \<and> 0 \<le> x \<and> x \<le> 4294967294 | _ \<Rightarrow> False)"

definition index_value :: "jsnum \<Rightarrow> real" where
  "index_value k = (case k of Finite x \<Rightarrow> x | _ \<Rightarrow> 0)"

definition Object_keys :: "(jsnum \<times> nat) list \<Rightarrow> jsnum list" where
  "Object_keys al =
     sort_key index_value (filter is_array_index (map fst al))
     @ filter (\<lambda>k. \<not> is_array_index k) (map fst al)"

text \<open>
  \<open>sort((a, b) => a - b)\<close>. \<open>positive_difference a b\<close> says that \<open>a - b\<close> is above zero (it
  is NaN, so not above zero, when an operand is NaN or both are the same infinity).
  \<open>Array.prototype.sort\<close> is stable, and it fixes the result when the comparator is
  consistent; \<open>a - b\<close> is consistent when NaN is not among the keys. The model is the
  insertion sort: each key in turn moves left past the keys whose difference with it is
  above zero (\<open>insert_back\<close> holds the keys sorted so far, the last one first). With a
  consistent comparator this is the result of every conforming sort; with another the
  order depends on the implementation, and the model fixes this one.
\<close>

fun positive_difference :: "jsnum \<Rightarrow> jsnum \<Rightarrow> bool" where
  "positive_difference (Finite x) (Finite y) = (y < x)"
| "positive_difference PosInf (Finite y) = True"
| "positive_difference (Finite x) NegInf = True"
| "positive_difference PosInf NegInf = True"
| "positive_difference a b = False"

fun insert_back :: "jsnum \<Rightarrow> jsnum list \<Rightarrow> jsnum list" where
  "insert_back x [] = [x]"
| "insert_back x (y # ys) = (if positive_difference y x then y # insert_back x ys else x # y # ys)"

definition sort_numbers :: "jsnum list \<Rightarrow> jsnum list" where
  "sort_numbers xs = rev (foldl (\<lambda>sorted x. insert_back x sorted) [] xs)"

definition timeSlots :: "(jsnum \<times> nat) list \<Rightarrow> jsnum list" where
  "timeSlots al = sort_numbers (Object_keys al)"

text \<open>The rows of the table: a time slot and \<open>eventsBySecond[time]\<close>.\<close>

definition timeline_rows :: "(jsnum \<times> nat) list \<Rightarrow> (jsnum \<times> nat option) list" where
  "timeline_rows al = map (\<lambda>t. (t, map_of al t)) (timeSlots al)"

text \<open>\<open>time.toFixed(1)\<close>\<close>

definition toFixed1 :: "host \<Rightarrow> jsnum \<Rightarrow> jsstring" where
  "toFixed1 h t =
     (case t of
        Finite x \<Rightarrow>
          (if x < 0 then js ''-'' else []) @
          (if \<bar>x\<bar> \<ge> 1000000000000000000000 then Number_toString h (Finite \<bar>x\<bar>)
           else (let n = nat \<lfloor>\<bar>x\<bar> * 10 + 1 / 2\<rfloor> in digits (n div 10) @ js ''.'' @ digits (n mod 10)))
      | _ \<Rightarrow> Number_toString h t)"

definition render_row :: "host \<Rightarrow> jsnum \<times> nat option \<Rightarrow> jsstring" where
  "render_row h row =
     js ''| '' @ toFixed1 h (fst row) @ js '' | ''
     @ (case snd row of None \<Rightarrow> js ''undefined'' | Some n \<Rightarrow> digits n) @ js '' |'' @ [LF]"

definition render_block :: "block \<Rightarrow> jsstring" where
  "render_block b =
     (if btype b = Command then js ''```bash'' @ [LF] @ trim (content b) @ [LF] @ js ''```'' @ [LF, LF]
      else js ''```'' @ [LF] @ trim (content b) @ [LF] @ js ''```'' @ [LF, LF])"

definition fenced :: "jsstring \<Rightarrow> jsstring" where
  "fenced msg = js ''```'' @ [LF] @ msg @ [LF] @ js ''```''"

definition empty_diagnostic :: jsstring where
  "empty_diagnostic = fenced (js ''Empty cast file'')"

definition header_diagnostic :: jsstring where
  "header_diagnostic = fenced (js ''Invalid cast file format: Could not parse header'')"

definition error_diagnostic :: jsstring where
  "error_diagnostic = fenced (js ''Error converting cast file to markdown'')"

definition render_env :: "host \<Rightarrow> jsval \<Rightarrow> jsstring option" where
  "render_env h env =
     (if truthy env then
        map_option (\<lambda>ls. js ''- **Environment**:'' @ [LF] @ concat ls)
          (those (map (\<lambda>kv. map_option (\<lambda>v. js ''  - '' @ fst kv @ js '': '' @ v @ [LF])
                               (ToString h (snd kv)))
                      (entries env)))
      else Some [])"

definition render_recorded :: "host \<Rightarrow> jsval \<Rightarrow> jsstring option" where
  "render_recorded h timestamp =
     (if truthy timestamp then
        map_option (\<lambda>t. js ''- **Recorded**: '' @ date_to_locale_string h t @ [LF])
          (ToNumber h timestamp)
      else Some [])"

text \<open>
  The part of \<open>convertCastToMarkdown\<close> that builds the document; \<open>None\<close> when a TypeError
  is thrown, which the outer \<open>catch\<close> turns into the third diagnostic. The multiplication
  sign is U+00D7.
\<close>

definition build_markdown :: "host \<Rightarrow> jsval \<Rightarrow> CastEvent list \<Rightarrow> jsstring \<Rightarrow> jsstring option" where
  "build_markdown h header events fileName =
     do {
       title \<leftarrow> field header (js ''title'');
       titleText \<leftarrow> ToString h (if truthy title then title else JStr fileName);
       version \<leftarrow> Option.bind (field header (js ''version'')) (ToString h);
       width \<leftarrow> Option.bind (field header (js ''width'')) (ToString h);
       height \<leftarrow> Option.bind (field header (js ''height'')) (ToString h);
       recorded \<leftarrow> Option.bind (field header (js ''timestamp'')) (render_recorded h);
       environment \<leftarrow> Option.bind (field header (js ''env'')) (render_env h);
       terminalOutput \<leftarrow> aggregate_output h [] events;
       counts \<leftarrow> eventsBySecond h [] events;
       Some (js ''# Terminal Recording: '' @ titleText @ [LF, LF]
             @ js ''## Recording Information'' @ [LF, LF]
             @ js ''- **File**: '' @ fileName @ [LF]
             @ js ''- **Version**: '' @ version @ [LF]
             @ js ''- **Dimensions**: '' @ width @ js '' '' @ [215] @ js '' '' @ height @ [LF]
             @ recorded @ environment
             @ [LF] @ js ''## Terminal Session'' @ [LF, LF]
             @ concat (map render_block (parseTerminalOutput (stripAnsiCodes terminalOutput)))
             @ js ''## Timeline'' @ [LF, LF]
             @ js ''Total events: '' @ digits (length events) @ [LF, LF]
             @ js ''| Time (s) | Events |'' @ [LF]
             @ js ''|----------|--------|'' @ [LF]
             @ concat (map (render_row h) (timeline_rows counts))
             @ [LF] @ js ''---'' @ [LF, LF]
             @ js ''*Generated from asciinema cast file*'' @ [LF])
     }"

definition convertCastToMarkdown :: "host \<Rightarrow> jsstring \<Rightarrow> jsstring \<Rightarrow> jsstring" where
  "convertCastToMarkdown h castContent fileName =
     (let lines = split_char LF (trim castContent) in
      if length lines = 0 then empty_diagnostic
      else
        (case JSON_parse h (hd lines) of
           None \<Rightarrow> header_diagnostic
         | Some header \<Rightarrow>
             (case build_markdown h header (parse_events h (tl lines)) fileName of
                None \<Rightarrow> error_diagnostic
              | Some markdown \<Rightarrow> markdown)))"

section \<open>The batch endpoint\<close>

text \<open>
  \<open>POST\<close>. The request body is taken as parsed: \<open>files\<close> is a list of names or absent.
  The file system is seen through \<open>path.join(loggingDir, file)\<close>: whether the logging
  directory exists, and for a name what lies at its path. Reading a directory throws,
  and the handler answers any exception with status 500.
\<close>

datatype node = File jsstring | Directory

datatype response =
    Response (markdowns: "(jsstring \<times> jsstring) list") (count: "nat option") (message: "jsstring option")
  | ServerError

fun convert_files :: "host \<Rightarrow> (jsstring \<Rightarrow> node option) \<Rightarrow> jsstring list \<Rightarrow> (jsstring \<times> jsstring) list option" where
  "convert_files h lookup [] = Some []"
| "convert_files h lookup (file # castFiles) =
     (case lookup file of
        None \<Rightarrow> convert_files h lookup castFiles
      | Some Directory \<Rightarrow> None
      | Some (File text) \<Rightarrow>
          map_option (\<lambda>rest. (file, convertCastToMarkdown h text file) # rest)
            (convert_files h lookup castFiles))"

definition POST :: "host \<Rightarrow> bool \<Rightarrow> (jsstring \<Rightarrow> node option) \<Rightarrow> jsstring list option \<Rightarrow> response" where
  "POST h loggingDirExists lookup files =
     (if \<not> loggingDirExists then Response [] None (Some (js ''No logging directory found''))
      else
        (case files of
           None \<Rightarrow> Response [] None (Some (js ''No files selected''))
         | Some fs \<Rightarrow>
             if length fs = 0 then Response [] None (Some (js ''No files selected''))
             else
               (case convert_files h lookup (filter (\<lambda>file. endsWith file (js ''.cast'')) fs) of
                  None \<Rightarrow> ServerError
                | Some markdownData \<Rightarrow> Response markdownData (Some (length markdownData)) None)))"

section \<open>Notions used in the statements\<close>

text \<open>
  The recording parser, said line by line: a line gives no event when it is blank, when
  \<open>JSON.parse\<close> throws, or when the value is \<open>null\<close>; any other value \<open>v\<close> gives the
  event of \<open>v[0]\<close>, \<open>v[1]\<close>, \<open>v[2]\<close>, each \<open>undefined\<close> where \<open>v\<close> has no such member.
\<close>

definition index_or_undefined :: "jsval \<Rightarrow> nat \<Rightarrow> jsval" where
  "index_or_undefined v i = (case elem v i of None \<Rightarrow> JUndefined | Some x \<Rightarrow> x)"

definition event_of_line :: "host \<Rightarrow> jsstring \<Rightarrow> CastEvent option" where
  "event_of_line h l =
     (if trim l = [] then None
      else (case JSON_parse h l of
              None \<Rightarrow> None
            | Some v \<Rightarrow>
                if v = JNull \<or> v = JUndefined then None
                else Some \<lparr>time = index_or_undefined v 0, etype = index_or_undefined v 1,
                           data = index_or_undefined v 2\<rparr>))"

text \<open>
  The block a group of source lines stands for: a command block holds \<open>$\<close>, the extracted
  command and a line feed for each of its lines; an output block holds its lines, a blank
  one as an empty line. \<open>group_ok\<close>: a command group is one line that is a command line;
  the lines of an output group are blank or not command lines.
\<close>

fun block_of_lines :: "block_type \<times> jsstring list \<Rightarrow> block" where
  "block_of_lines (Command, ls) =
     \<lparr>btype = Command, content = concat (map (\<lambda>l. js ''$ '' @ extractCommand l @ [LF]) ls)\<rparr>"
| "block_of_lines (Output, ls) =
     \<lparr>btype = Output, content = concat (map (\<lambda>l. (if trim l = [] then [] else l) @ [LF]) ls)\<rparr>"

fun group_ok :: "block_type \<times> jsstring list \<Rightarrow> bool" where
  "group_ok (Command, ls) = (length ls = 1 \<and> list_all isCommandLine ls)"
| "group_ok (Output, ls) = list_all (\<lambda>l. trim l = [] \<or> \<not> isCommandLine l) ls"



definition open_group :: "'a option \<Rightarrow> 'a list" where
  "open_group og = (case og of None \<Rightarrow> [] | Some g \<Rightarrow> [g])"

definition trace_ok :: "block list \<times> block option \<Rightarrow> jsstring list \<Rightarrow> bool" where
  "trace_ok st pre \<longleftrightarrow>
     (\<exists>gs og. fst st = map block_of_lines gs \<and> snd st = map_option block_of_lines og
        \<and> list_all group_ok (gs @ open_group og)
        \<and> subseq (concat (map snd (gs @ open_group og))) pre)"

text \<open>
  The row of an event: its floored time, as the key under which \<open>eventsBySecond\<close> counts
  it. \<open>cnt\<close> is the count the table holds for a key.
\<close>

definition slot :: "host \<Rightarrow> CastEvent \<Rightarrow> jsnum" where
  "slot h e = (case ToNumber h (time e) of None \<Rightarrow> NaN | Some t \<Rightarrow> Math_floor t)"


text \<open>
  The events of a conversion, and the text of the rows the table has for a list of
  keys: for each key, its \<open>toFixed(1)\<close> and the number of events with that floored time.
\<close>

definition cast_events :: "host \<Rightarrow> jsstring \<Rightarrow> CastEvent list" where
  "cast_events h castContent = parse_events h (tl (split_char LF (trim castContent)))"

definition table_rows :: "host \<Rightarrow> CastEvent list \<Rightarrow> jsnum list \<Rightarrow> jsstring" where
  "table_rows h events ks =
     concat (map (\<lambda>k. js ''| '' @ toFixed1 h k @ js '' | ''
                        @ digits (length (filter (\<lambda>e. slot h e = k) events)) @ js '' |'' @ [LF]) ks)"

text \<open>The values of JSON that are neither \<open>null\<close> nor an object.\<close>

fun primitive_or_array :: "jsval \<Rightarrow> bool" where
  "primitive_or_array (JBool b) = True"
| "primitive_or_array (JNum n) = True"
| "primitive_or_array (JStr s) = True"
| "primitive_or_array (JArr xs) = True"
| "primitive_or_array v = False"

text \<open>
  The characters the stripper removes one by one: the control characters but tab and
  line feed (the carriage return among them) and the Braille patterns.
\<close>

definition removed_chars :: "(nat \<times> nat) list" where
  "removed_chars = [(0, 8), (11, 31), (127, 127), (10240, 10495)]"

section \<open>A host for the closed examples\<close>

text \<open>
  The examples below need one host. Its \<open>JSON.parse\<close> is tabulated on the lines the
  examples use, with the value \<open>JSON.parse\<close> returns for each (the three numbers are
  doubles, so no rounding is involved), and throws on any other text. No example reaches
  the other three members.
\<close>

definition quoted :: "string \<Rightarrow> jsstring" where
  "quoted s = [34] @ js s @ [34]"

definition example_parse :: "jsstring \<Rightarrow> jsval option" where
  "example_parse s =
     (if s = js ''{}'' then Some (JObj [])
      else if s = js ''[]'' then Some (JArr [])
      else if s = js ''true'' then Some (JBool True)
      else if s = js ''null'' then Some JNull
      else if s = js ''[0.25,'' @ quoted ''o'' @ js '','' @ quoted ''ls'' @ js '']''
        then Some (JArr [JNum (Finite (1 / 4)), JStr (js ''o''), JStr (js ''ls'')])
      else if s = js ''[0.5,'' @ quoted ''i'' @ js '','' @ quoted ''x'' @ js '']''
        then Some (JArr [JNum (Finite (1 / 2)), JStr (js ''i''), JStr (js ''x'')])
      else if s = js ''[2.5,'' @ quoted ''r'' @ js '','' @ quoted ''80x24'' @ js '']''
        then Some (JArr [JNum (Finite (5 / 2)), JStr (js ''r''), JStr (js ''80x24'')])
      else None)"

definition example_host :: host where
  "example_host =
     \<lparr>JSON_parse = example_parse, string_to_number = (\<lambda>s. NaN),
      number_to_string = (\<lambda>x. []), date_to_locale_string = (\<lambda>t. [])\<rparr>"

definition example_event :: "real \<Rightarrow> string \<Rightarrow> string \<Rightarrow> CastEvent" where
  "example_event t ty d = \<lparr>time = JNum (Finite t), etype = JStr (js ty), data = JStr (js d)\<rparr>"

definition example_lookup :: "jsstring \<Rightarrow> node option" where
  "example_lookup f =
     (if f = js ''a.cast'' then Some (File (js ''{}''))
      else if f = js ''notes.txt'' then Some (File (js ''{}''))
      else None)"

definition example_recording :: jsstring where
  "example_recording =
     js ''{}'' @ [LF]
     @ js ''[0.25,'' @ quoted ''o'' @ js '','' @ quoted ''ls'' @ js '']'' @ [LF]
     @ js ''[2.5,'' @ quoted ''r'' @ js '','' @ quoted ''80x24'' @ js '']'' @ [LF]
     @ js ''[0.5,'' @ quoted ''i'' @ js '','' @ quoted ''x'' @ js '']''"

section \<open>Evaluation\<close>

text \<open>
  The equation of \<open>ms\<close> for \<open>Star\<close> applies to any string, also to a variable under a
  binder; for rewriting it is replaced by its two instances on the constructors.
\<close>

lemma ms_Star_Nil [simp]: "ms (Star a) [] = [[]]"
  by simp

lemma ms_Star_Cons [simp]:
  "ms (Star a) (c # s) =
     concat (map (\<lambda>t. if length t < Suc (length s) then ms (Star a) t else []) (ms a (c # s)))
     @ [c # s]"
  by simp

declare ms.simps(7) [simp del]
declare digits.simps [simp del]

lemmas string_defs = js_def LF_def CR_def BEL_def ESC_def ARROW_HEAVY_def ARROW_RIGHT_def
  BALLOT_X_def CHECK_MARK_def BOX_VERTICAL_def ws_ranges_def is_space_def trim_def
  startsWith_def endsWith_def

lemmas re_defs = Plus_def chars_def rng_def one_def none_of_def str_def re_s_def re_S_def re_d_def
  re_dot_def letters_def test_start_def test_full_def replace_start_def split_re_def exec_tail_def

lemmas strip_defs = digit_or_def osc_esc_def osc_bare_def csi_esc_def csi_bare_def esc_keypad_def
  esc_other_def iterm_esc_def mark_esc_def mark_bare_def iterm_bare_def mode_bare_def
  mouse_bare_def braille_def control_def removal_passes_def strip_sequences_def
  prompt_prefix_def justPrompt_def two_spaces_def collapse_line_def progressPattern_def
  remnants_def bare_percent_def ago_line_def ago_glued_def glyphs_def prompt_path_def
  keep_line_def blank_run_def stripAnsiCodes_def

lemmas classifier_defs = first_code_point_def output_glyphs_def ci_char_def ci_def
  output_openers_def capitalized_colon_def shell_prompt_def word_chars_def user_at_host_def
  decorated_prompt_def commonCommands_def isCommandLine_def omz_prefix_def
  user_host_prefix_def prompt_symbol_def m_artifact_def extractCommand_def parse_step_def
  parseTerminalOutput_def

lemmas render_defs = Number_toString_def Math_floor_def own_def key_value_def is_index_key_def
  own_keys_def is_array_index_def index_value_def Object_keys_def sort_numbers_def timeSlots_def
  timeline_rows_def toFixed1_def render_row_def render_block_def fenced_def empty_diagnostic_def
  header_diagnostic_def error_diagnostic_def render_env_def render_recorded_def
  build_markdown_def convertCastToMarkdown_def cast_events_def table_rows_def slot_def

lemmas example_defs = quoted_def example_parse_def example_host_def example_event_def example_lookup_def
  example_recording_def

section \<open>The output aggregator\<close>

lemma aggregate_output_acc:
  "aggregate_output h acc es =
     map_option (\<lambda>ss. acc @ concat ss)
       (those (map (\<lambda>e. ToString h (data e)) (filter (\<lambda>e. etype e = JStr (js ''o'')) es)))"
proof (induction es arbitrary: acc)
  case Nil
  then show ?case by simp
next
  case (Cons e es)
  show ?case
  proof (cases "etype e = JStr (js ''o'')")
    case False
    then show ?thesis using Cons.IH by simp
  next
    case True
    then show ?thesis using Cons.IH
      by (cases "ToString h (data e)") (simp_all add: option.map_comp comp_def)
  qed
qed

text \<open>
  C3. The aggregated terminal text is the concatenation, in sequence order, of the
  \<open>data\<close> fields (as strings) of exactly the events whose type is \<open>"o"\<close>; the other events
  contribute nothing. The aggregation yields no text only when the conversion of some
  such field to a string throws.
\<close>

theorem aggregate_output_concat:
  "aggregate_output h [] events =
     map_option concat
       (those (map (\<lambda>e. ToString h (data e)) (filter (\<lambda>e. etype e = JStr (js ''o'')) events)))"
  by (simp add: aggregate_output_acc)

theorem aggregate_output_concat_witness:
  "aggregate_output example_host []
     [example_event 0 ''o'' ''ab'', example_event 1 ''i'' ''x'', example_event 2 ''o'' ''cd'']
   = Some (js ''abcd'')"
  using aggregate_output_concat [of example_host
     "[example_event 0 ''o'' ''ab'', example_event 1 ''i'' ''x'', example_event 2 ''o'' ''cd'']"]
  by (simp add: example_defs js_def)

section \<open>The batch endpoint: names and count\<close>

lemma convert_files_names:
  "convert_files h lookup fs = Some mds \<Longrightarrow> map fst mds = filter (\<lambda>f. lookup f \<noteq> None) fs"
proof (induction fs arbitrary: mds)
  case Nil
  then show ?case by simp
next
  case (Cons f fs)
  then show ?case
    by (auto split: option.splits node.splits)
qed

text \<open>
  C9. Whenever the endpoint answers with a count, the count is the number of entries
  returned, and the entries are, in request order, those of the requested names that end
  in \<open>.cast\<close> and have a file: a name with another ending is left out like a missing
  file, whether or not it names a file. The two early answers carry no count and no
  entry.
\<close>

theorem POST_count_and_omission:
  assumes "POST h loggingDirExists lookup files = Response mds c msg"
  shows "(\<forall>n. c = Some n \<longrightarrow> n = length mds)
       \<and> (c \<noteq> None \<longrightarrow> (\<exists>fs. files = Some fs
              \<and> map fst mds = filter (\<lambda>f. endsWith f (js ''.cast'') \<and> lookup f \<noteq> None) fs))
       \<and> (\<forall>f \<in> set (map fst mds). endsWith f (js ''.cast'') \<and> lookup f \<noteq> None)"
proof (cases "loggingDirExists \<and> (\<exists>fs. files = Some fs \<and> fs \<noteq> [])")
  case False
  then have "mds = [] \<and> c = None"
    using assms by (auto simp: POST_def split: option.splits if_splits)
  then show ?thesis by simp
next
  case True
  then obtain fs where fs: "files = Some fs" "fs \<noteq> []" and ok: loggingDirExists by blast
  from assms fs ok
  have cf: "convert_files h lookup (filter (\<lambda>file. endsWith file (js ''.cast'')) fs) = Some mds"
    and c: "c = Some (length mds)"
    by (auto simp: POST_def split: option.splits)
  from convert_files_names [OF cf]
  have names: "map fst mds = filter (\<lambda>f. endsWith f (js ''.cast'') \<and> lookup f \<noteq> None) fs"
    by (simp add: conj_commute)
  show ?thesis using c fs names by auto
qed

theorem POST_count_and_omission_witness:
  "POST example_host True example_lookup (Some [js ''notes.txt'', js ''a.cast'', js ''gone.cast''])
     = Response [(js ''a.cast'', convertCastToMarkdown example_host (js ''{}'') (js ''a.cast''))]
         (Some 1) None
   \<and> map fst [(js ''a.cast'', convertCastToMarkdown example_host (js ''{}'') (js ''a.cast''))]
     = filter (\<lambda>f. endsWith f (js ''.cast'') \<and> example_lookup f \<noteq> None)
         [js ''notes.txt'', js ''a.cast'', js ''gone.cast'']"
proof -
  have h: "POST example_host True example_lookup
             (Some [js ''notes.txt'', js ''a.cast'', js ''gone.cast''])
           = Response [(js ''a.cast'', convertCastToMarkdown example_host (js ''{}'') (js ''a.cast''))]
               (Some 1) None"
    by (simp add: POST_def example_lookup_def endsWith_def js_def)
  from POST_count_and_omission [OF h] h show ?thesis by simp
qed

section \<open>The recording parser\<close>

lemma split_char_not_Nil: "split_char c s \<noteq> []"
  by (induction s) (auto split: list.splits)

lemma build_markdown_Some:
  assumes "build_markdown h header events fileName = Some markdown"
  shows "\<exists>before counts.
           eventsBySecond h [] events = Some counts
         \<and> markdown = js ''# Terminal Recording: '' @ before @ js ''## Timeline'' @ [LF, LF]
             @ js ''Total events: '' @ digits (length events) @ [LF, LF]
             @ js ''| Time (s) | Events |'' @ [LF]
             @ js ''|----------|--------|'' @ [LF]
             @ concat (map (render_row h) (timeline_rows counts))
             @ [LF] @ js ''---'' @ [LF, LF]
             @ js ''*Generated from asciinema cast file*'' @ [LF]"
proof -
  from assms obtain titleText version width height recorded environment terminalOutput counts
    where c: "eventsBySecond h [] events = Some counts"
      and m: "markdown = js ''# Terminal Recording: '' @ titleText @ [LF, LF]
             @ js ''## Recording Information'' @ [LF, LF]
             @ js ''- **File**: '' @ fileName @ [LF]
             @ js ''- **Version**: '' @ version @ [LF]
             @ js ''- **Dimensions**: '' @ width @ js '' '' @ [215] @ js '' '' @ height @ [LF]
             @ recorded @ environment
             @ [LF] @ js ''## Terminal Session'' @ [LF, LF]
             @ concat (map render_block (parseTerminalOutput (stripAnsiCodes terminalOutput)))
             @ js ''## Timeline'' @ [LF, LF]
             @ js ''Total events: '' @ digits (length events) @ [LF, LF]
             @ js ''| Time (s) | Events |'' @ [LF]
             @ js ''|----------|--------|'' @ [LF]
             @ concat (map (render_row h) (timeline_rows counts))
             @ [LF] @ js ''---'' @ [LF, LF]
             @ js ''*Generated from asciinema cast file*'' @ [LF]"
    unfolding build_markdown_def by (auto split: Option.bind_splits)
  let ?before = "titleText @ [LF, LF]
             @ js ''## Recording Information'' @ [LF, LF]
             @ js ''- **File**: '' @ fileName @ [LF]
             @ js ''- **Version**: '' @ version @ [LF]
             @ js ''- **Dimensions**: '' @ width @ js '' '' @ [215] @ js '' '' @ height @ [LF]
             @ recorded @ environment
             @ [LF] @ js ''## Terminal Session'' @ [LF, LF]
             @ concat (map render_block (parseTerminalOutput (stripAnsiCodes terminalOutput)))"
  from c m show ?thesis
    by (intro exI [of _ ?before] exI [of _ counts]) simp
qed

lemma field_primitive: "primitive_or_array v \<Longrightarrow> field v name = Some JUndefined"
  by (cases v) simp_all

lemma field_empty_object: "field (JObj []) name = Some JUndefined"
  by (simp add: own_def)

lemma build_markdown_primitive:
  "primitive_or_array v \<Longrightarrow>
     build_markdown h v events fileName = build_markdown h (JObj []) events fileName"
  by (simp add: build_markdown_def field_primitive own_def)

lemma build_markdown_null: "build_markdown h JNull events fileName = None"
  by (simp add: build_markdown_def)

lemma markdown_not_header_diagnostic:
  assumes "build_markdown h header events fileName = Some markdown"
  shows "markdown \<noteq> header_diagnostic"
proof -
  from build_markdown_Some [OF assms] obtain rest where "markdown = js ''# Terminal Recording: '' @ rest"
    by blast
  then show ?thesis by (simp add: header_diagnostic_def fenced_def js_def)
qed

lemma error_not_header_diagnostic: "error_diagnostic \<noteq> header_diagnostic"
  by (simp add: error_diagnostic_def header_diagnostic_def fenced_def js_def)

text \<open>
  C1, as amended. For every input that is not empty after trimming: when \<open>JSON.parse\<close>
  rejects the first line, the conversion returns exactly the fixed block
  \<open>Invalid cast file format: Could not parse header\<close> (no event is parsed, no block is
  built, and the result has no metadata, terminal-session or timeline section); when the
  first line is \<open>null\<close>, it returns exactly the fixed block
  \<open>Error converting cast file to markdown\<close>; and when the first line is any other JSON
  value that is not an object (a boolean, a number, a string or an array), the value is
  taken as the header and the conversion returns what it returns for the header \<open>{}\<close>
  and the same event lines, which is never the block of the header.
\<close>

theorem header_line_outcomes:
  assumes "trim castContent \<noteq> []"
  shows "(JSON_parse h (hd (split_char LF (trim castContent))) = None \<longrightarrow>
            convertCastToMarkdown h castContent fileName = header_diagnostic)
       \<and> (JSON_parse h (hd (split_char LF (trim castContent))) = Some JNull \<longrightarrow>
            convertCastToMarkdown h castContent fileName = error_diagnostic)
       \<and> (\<forall>v. JSON_parse h (hd (split_char LF (trim castContent))) = Some v \<and> primitive_or_array v \<longrightarrow>
            convertCastToMarkdown h castContent fileName
              = (case build_markdown h (JObj []) (cast_events h castContent) fileName of
                   None \<Rightarrow> error_diagnostic
                 | Some markdown \<Rightarrow> markdown)
            \<and> convertCastToMarkdown h castContent fileName \<noteq> header_diagnostic)"
proof (intro conjI impI allI)
  assume "JSON_parse h (hd (split_char LF (trim castContent))) = None"
  then show "convertCastToMarkdown h castContent fileName = header_diagnostic"
    by (simp add: convertCastToMarkdown_def Let_def split_char_not_Nil)
next
  assume "JSON_parse h (hd (split_char LF (trim castContent))) = Some JNull"
  then show "convertCastToMarkdown h castContent fileName = error_diagnostic"
    by (simp add: convertCastToMarkdown_def Let_def split_char_not_Nil build_markdown_null)
next
  fix v
  assume a: "JSON_parse h (hd (split_char LF (trim castContent))) = Some v \<and> primitive_or_array v"
  then show eq: "convertCastToMarkdown h castContent fileName
              = (case build_markdown h (JObj []) (cast_events h castContent) fileName of
                   None \<Rightarrow> error_diagnostic
                 | Some markdown \<Rightarrow> markdown)"
    by (simp add: convertCastToMarkdown_def Let_def split_char_not_Nil cast_events_def
        build_markdown_primitive)
  show "convertCastToMarkdown h castContent fileName \<noteq> header_diagnostic"
    unfolding eq
    by (cases "build_markdown h (JObj []) (cast_events h castContent) fileName")
      (simp_all add: error_not_header_diagnostic markdown_not_header_diagnostic)
qed

theorem header_line_outcomes_witness:
  "trim (js ''not json'' @ [LF] @ js ''[]'') \<noteq> []
   \<and> JSON_parse example_host (hd (split_char LF (trim (js ''not json'' @ [LF] @ js ''[]'')))) = None
   \<and> convertCastToMarkdown example_host (js ''not json'' @ [LF] @ js ''[]'') (js ''a.cast'')
     = header_diagnostic
   \<and> trim (js ''null'' @ [LF] @ js ''{}'') \<noteq> []
   \<and> JSON_parse example_host (hd (split_char LF (trim (js ''null'' @ [LF] @ js ''{}'')))) = Some JNull
   \<and> convertCastToMarkdown example_host (js ''null'' @ [LF] @ js ''{}'') (js ''a.cast'')
     = error_diagnostic
   \<and> trim (js ''true'') \<noteq> []
   \<and> JSON_parse example_host (hd (split_char LF (trim (js ''true'')))) = Some (JBool True)
   \<and> primitive_or_array (JBool True)
   \<and> convertCastToMarkdown example_host (js ''true'') (js ''a.cast'')
     = (case build_markdown example_host (JObj []) (cast_events example_host (js ''true'')) (js ''a.cast'') of
          None \<Rightarrow> error_diagnostic
        | Some markdown \<Rightarrow> markdown)
   \<and> convertCastToMarkdown example_host (js ''true'') (js ''a.cast'') \<noteq> header_diagnostic"
proof -
  have t1: "trim (js ''not json'' @ [LF] @ js ''[]'') \<noteq> []"
    and t2: "trim (js ''null'' @ [LF] @ js ''{}'') \<noteq> []"
    and t3: "trim (js ''true'') \<noteq> []"
    by (simp_all add: string_defs)
  have p1: "JSON_parse example_host (hd (split_char LF (trim (js ''not json'' @ [LF] @ js ''[]'')))) = None"
    and p2: "JSON_parse example_host (hd (split_char LF (trim (js ''null'' @ [LF] @ js ''{}'')))) = Some JNull"
    and p3: "JSON_parse example_host (hd (split_char LF (trim (js ''true'')))) = Some (JBool True)"
    by (simp_all add: string_defs example_defs)
  from header_line_outcomes [OF t1, of example_host "js ''a.cast''"] p1
  have r1: "convertCastToMarkdown example_host (js ''not json'' @ [LF] @ js ''[]'') (js ''a.cast'')
              = header_diagnostic"
    by blast
  from header_line_outcomes [OF t2, of example_host "js ''a.cast''"] p2
  have r2: "convertCastToMarkdown example_host (js ''null'' @ [LF] @ js ''{}'') (js ''a.cast'')
              = error_diagnostic"
    by blast
  have pa: "primitive_or_array (JBool True)" by simp
  from header_line_outcomes [OF t3, of example_host "js ''a.cast''"] p3 pa
  have r3: "convertCastToMarkdown example_host (js ''true'') (js ''a.cast'')
     = (case build_markdown example_host (JObj []) (cast_events example_host (js ''true'')) (js ''a.cast'') of
          None \<Rightarrow> error_diagnostic
        | Some markdown \<Rightarrow> markdown)
   \<and> convertCastToMarkdown example_host (js ''true'') (js ''a.cast'') \<noteq> header_diagnostic"
    by blast
  note r3a = r3 [THEN conjunct1] and r3b = r3 [THEN conjunct2]
  show ?thesis
    by (intro conjI) (fact t1 p1 r1 t2 p2 r2 t3 p3 pa r3a r3b)+
qed

text \<open>
  The branch for an input without lines is never taken, since a split has at least one
  piece: an input that is empty after trimming gets the diagnostic of the header, given
  that \<open>JSON.parse\<close> rejects the empty string.
\<close>

lemma empty_input_header_diagnostic:
  assumes "trim castContent = []" and "JSON_parse h [] = None"
  shows "convertCastToMarkdown h castContent fileName = header_diagnostic"
    and "header_diagnostic \<noteq> empty_diagnostic"
  using assms
  by (simp_all add: convertCastToMarkdown_def header_diagnostic_def empty_diagnostic_def fenced_def
      js_def)

text \<open>
  C1 as stated fails: a first line that is valid JSON but not an object is taken as the
  header. For the input \<open>true\<close> the whole document is built, every header field
  \<open>undefined\<close>.
\<close>

theorem convert_accepts_non_object_header:
  "JSON_parse example_host (hd (split_char LF (trim (js ''true'')))) = Some (JBool True)
   \<and> convertCastToMarkdown example_host (js ''true'') (js ''a.cast'')
     = js ''# Terminal Recording: a.cast'' @ [LF, LF]
       @ js ''## Recording Information'' @ [LF, LF]
       @ js ''- **File**: a.cast'' @ [LF]
       @ js ''- **Version**: undefined'' @ [LF]
       @ js ''- **Dimensions**: undefined '' @ [215] @ js '' undefined'' @ [LF, LF]
       @ js ''## Terminal Session'' @ [LF, LF]
       @ js ''## Timeline'' @ [LF, LF]
       @ js ''Total events: 0'' @ [LF, LF]
       @ js ''| Time (s) | Events |'' @ [LF]
       @ js ''|----------|--------|'' @ [LF, LF]
       @ js ''---'' @ [LF, LF]
       @ js ''*Generated from asciinema cast file*'' @ [LF]"
  by (simp add: example_defs string_defs re_defs strip_defs classifier_defs render_defs digits.simps)

lemma elem_None: "elem v i = None \<longleftrightarrow> v = JNull \<or> v = JUndefined"
  by (cases v) simp_all

text \<open>
  C2, as amended. Each non-blank line after the header is parsed on its own: a line that
  \<open>JSON.parse\<close> rejects, or whose value is \<open>null\<close>, is skipped; every other line gives one
  event, made of the members 0, 1 and 2 of its value (\<open>undefined\<close> where absent), and the
  events keep the order of their lines.
\<close>

theorem parse_events_by_line:
  "parse_events h ls = List.map_filter (event_of_line h) ls"
proof (induction ls)
  case Nil
  then show ?case by (simp add: map_filter_simps)
next
  case (Cons l ls)
  show ?case
  proof (cases "JSON_parse h l")
    case None
    then show ?thesis using Cons.IH by (simp add: map_filter_simps event_of_line_def)
  next
    case (Some v)
    show ?thesis
    proof (cases "v = JNull \<or> v = JUndefined")
      case True
      then show ?thesis using Some Cons.IH
        by (auto simp: map_filter_simps event_of_line_def)
    next
      case False
      then obtain a b c where "elem v 0 = Some a" "elem v 1 = Some b" "elem v 2 = Some c"
        using elem_None by (metis not_Some_eq)
      then show ?thesis using Some Cons.IH False
        by (simp add: map_filter_simps event_of_line_def index_or_undefined_def)
    qed
  qed
qed

theorem parse_events_by_line_witness:
  "parse_events example_host [js ''{}'', js ''oops'', js ''null'', js ''  '', js ''[]'']
   = [\<lparr>time = JUndefined, etype = JUndefined, data = JUndefined\<rparr>,
      \<lparr>time = JUndefined, etype = JUndefined, data = JUndefined\<rparr>]"
  using parse_events_by_line [of example_host "[js ''{}'', js ''oops'', js ''null'', js ''  '', js ''[]'']"]
  by (simp add: map_filter_simps event_of_line_def index_or_undefined_def example_defs string_defs
      digits.simps own_def)

text \<open>
  C2 as stated fails: the line \<open>{}\<close> is valid JSON and no 3-element structure, and it is
  not skipped; it gives an event whose three fields are \<open>undefined\<close>.
\<close>

theorem parse_events_keeps_non_triple:
  "JSON_parse example_host (js ''{}'') = Some (JObj [])
   \<and> parse_events example_host [js ''{}'']
     = [\<lparr>time = JUndefined, etype = JUndefined, data = JUndefined\<rparr>]"
  by (simp add: example_defs string_defs digits.simps own_def)


section \<open>The stripper on concrete inputs\<close>

text \<open>
  C4. The line of the claim splits into three segments at runs of two or more white
  spaces; the loop collapses a line only when it has more than three, so the line
  reaches the cleaned text unchanged (the carriage return apart).
\<close>

theorem three_repetitions_not_collapsed:
  "length (split_re two_spaces (js ''Preparing nodes   Preparing nodes   Preparing nodes '')) = 3
   \<and> stripAnsiCodes (js ''Preparing nodes   Preparing nodes   Preparing nodes '' @ [CR, LF])
     = js ''Preparing nodes   Preparing nodes   Preparing nodes '' @ [LF]"
  by (simp add: string_defs re_defs strip_defs)


theorem three_repetitions_not_collapsed_witness:
  "stripAnsiCodes (js ''Preparing nodes   Preparing nodes   Preparing nodes '' @ [CR, LF])
     \<noteq> js ''Preparing nodes''
   \<and> stripAnsiCodes (js ''Preparing nodes   Preparing nodes   Preparing nodes '' @ [CR, LF])
     \<noteq> js ''Preparing nodes'' @ [LF]"
  using three_repetitions_not_collapsed by (simp add: js_def LF_def)

section \<open>The classifier on a concrete line\<close>

text \<open>
  C5. The line matches the capitalized-word-then-colon pattern, contains neither \<open>$\<close> nor
  \<open>#\<close> and is not the image-version line, and \<open>isCommandLine\<close> classifies it as a command:
  the block under that test returns only for the image-version line, and the
  user-at-host test that follows accepts the line.
\<close>

theorem isCommandLine_capitalized_colon_command:
  "test_start capitalized_colon (trim (js ''Admin@server:~ ls -la''))
   \<and> \<not> includes_str (trim (js ''Admin@server:~ ls -la'')) (js ''$'')
   \<and> \<not> includes_str (trim (js ''Admin@server:~ ls -la'')) (js ''#'')
   \<and> \<not> includes_str (trim (js ''Admin@server:~ ls -la'')) (js ''cilium image'')
   \<and> isCommandLine (js ''Admin@server:~ ls -la'')"
  by (simp add: string_defs re_defs classifier_defs glyphs_def)

theorem isCommandLine_capitalized_colon_command_witness:
  "isCommandLine (js ''Admin@server:~ ls -la'')"
  using isCommandLine_capitalized_colon_command by blast

section \<open>What the stripper leaves\<close>

lemma is_prefix_drop: "is_prefix l s \<Longrightarrow> l @ drop (length l) s = s"
  by (induction l s rule: is_prefix.induct) simp_all

lemma ms_suffix: "m \<in> set (ms r s) \<Longrightarrow> suffix m s"
proof (induction r s arbitrary: m rule: ms.induct)
  case (1 pos rs)
  then show ?case by simp
next
  case (2 pos rs c t)
  then show ?case by (auto simp: suffix_Cons split: if_splits)
next
  case (3 l s)
  then show ?case by (auto simp: suffix_drop split: if_splits)
next
  case (4 a b s)
  from "4.prems" obtain x where x: "x \<in> set (ms a s)" and m: "m \<in> set (ms b x)" by auto
  from "4.IH"(1) [OF x] "4.IH"(2) [OF x m] show ?case by (rule suffix_order.trans [rotated])
next
  case (5 a b s)
  then show ?case by auto
next
  case (6 a s)
  then show ?case by auto
next
  case (7 a s)
  from "7.prems" have "m = s \<or> (\<exists>x \<in> set (ms a s). length x < length s \<and> m \<in> set (ms (Star a) x))"
    by (subst (asm) ms.simps(7)) (auto split: if_splits)
  then show ?case
  proof
    assume "m = s" then show ?thesis by simp
  next
    assume "\<exists>x \<in> set (ms a s). length x < length s \<and> m \<in> set (ms (Star a) x)"
    then obtain x where x: "x \<in> set (ms a s)" "length x < length s" "m \<in> set (ms (Star a) x)"
      by blast
    from "7.IH"(2) [OF x] "7.IH"(1) [OF x(1)] show ?thesis by (rule suffix_order.trans)
  qed
qed

lemma ms_head_subset: "ms r s = m # rest \<Longrightarrow> set m \<subseteq> set s"
  using ms_suffix [of m r s] by (auto dest: set_mono_suffix)

lemma set_replace_all: "set (replace_all r rep s) \<subseteq> set s \<union> set rep"
proof (induction r rep s rule: replace_all.induct)
  case (1 r rep)
  then show ?case by auto
next
  case (2 r rep c t)
  show ?case
  proof (cases "ms r (c # t)")
    case Nil
    then show ?thesis using 2(1) by auto
  next
    case (Cons m rest)
    show ?thesis
    proof (cases "length m < length (c # t)")
      case True
      then show ?thesis using 2(2) [OF Cons True] ms_head_subset [OF Cons] Cons by auto
    next
      case False
      then show ?thesis using 2(3) [OF Cons False] Cons by auto
    qed
  qed
qed

lemma replace_all_class:
  "replace_all (Cls True rs) [] s = filter (\<lambda>c. \<not> in_ranges rs c) s"
  by (induction s) simp_all

lemma replace_all_no_start:
  assumes "ms r [] = []" and "\<And>c t. c \<in> set s \<Longrightarrow> ms r (c # t) = []"
  shows "replace_all r rep s = s"
  using assms(2) by (induction s) (simp_all add: assms(1))

lemma set_split_char: "l \<in> set (split_char c s) \<Longrightarrow> set l \<subseteq> set s"
proof (induction s arbitrary: l)
  case Nil
  then show ?case by simp
next
  case (Cons a s)
  show ?case
  proof (cases "a = c")
    case True
    then show ?thesis using Cons by auto
  next
    case False
    obtain p ps where ps: "split_char c s = p # ps"
      using split_char_not_Nil [of c s] by (cases "split_char c s") auto
    from Cons.prems False ps have "l = a # p \<or> l \<in> set ps" by simp
    then show ?thesis
    proof
      assume "l = a # p"
      moreover have "set p \<subseteq> set s" using Cons.IH [of p] ps by simp
      ultimately show ?thesis by auto
    next
      assume "l \<in> set ps"
      then have "set l \<subseteq> set s" using Cons.IH [of l] ps by simp
      then show ?thesis by auto
    qed
  qed
qed

lemma set_trim: "set (trim s) \<subseteq> set s"
proof -
  have "set (trim s) \<subseteq> set (dropWhile is_space s)"
    unfolding trim_def using set_dropWhileD by fastforce
  also have "\<dots> \<subseteq> set s" using set_dropWhileD by fastforce
  finally show ?thesis .
qed

lemma set_split_loop: "p \<in> set (split_loop r cur s) \<Longrightarrow> set p \<subseteq> set cur \<union> set s"
proof (induction r cur s arbitrary: p rule: split_loop.induct)
  case (1 r cur)
  then show ?case by simp
next
  case (2 r cur c t)
  show ?case
  proof (cases "ms r (c # t)")
    case Nil
    then show ?thesis using 2(1) [OF Nil] "2.prems" by auto
  next
    case (Cons m rest)
    show ?thesis
    proof (cases "length m < length (c # t)")
      case True
      then show ?thesis
        using 2(2) [OF Cons True] "2.prems" ms_head_subset [OF Cons] Cons by auto
    next
      case False
      show ?thesis
      proof (cases "cur = []")
        case True
        then show ?thesis using 2(3) [OF Cons False True] "2.prems" Cons False by auto
      next
        case ne: False
        then show ?thesis using 2(4) [OF Cons False ne] "2.prems" Cons False by auto
      qed
    qed
  qed
qed

lemma set_split_re: "p \<in> set (split_re r s) \<Longrightarrow> set p \<subseteq> set s"
  using set_split_loop [of p r "[]" s] by (auto simp: split_re_def split: if_splits)

lemma set_exec_tail: "exec_tail p q s = Some m \<Longrightarrow> set m \<subseteq> set s"
proof -
  assume "exec_tail p q s = Some m"
  then have "m \<in> set (ms p s)"
    unfolding exec_tail_def by (auto simp: find_Some_iff)
  then show ?thesis using ms_suffix set_mono_suffix by blast
qed

lemma set_collapse_line: "l' \<in> set (collapse_line l) \<Longrightarrow> set l' \<subseteq> set l"
proof (cases "exec_tail prompt_prefix (Plus re_dot) l")
  case (Some cmd)
  assume "l' \<in> set (collapse_line l)"
  then have "l' = trim cmd" using Some by (simp add: collapse_line_def split: if_splits)
  then show ?thesis using set_trim [of cmd] set_exec_tail [OF Some] by auto
next
  case None
  assume a: "l' \<in> set (collapse_line l)"
  let ?parts = "split_re two_spaces l"
  from a None have "l' = l \<or> (l' = trim (last ?parts) \<and> ?parts \<noteq> [])"
    by (auto simp: collapse_line_def Let_def split: if_splits)
  then show ?thesis
  proof
    assume "l' = l" then show ?thesis by simp
  next
    assume b: "l' = trim (last ?parts) \<and> ?parts \<noteq> []"
    then have "last ?parts \<in> set ?parts" by simp
    then have "set (last ?parts) \<subseteq> set l" by (rule set_split_re)
    then show ?thesis using b set_trim [of "last ?parts"] by auto
  qed
qed

lemma set_filter_lines: "set (filter_lines prev ls) \<subseteq> set ls"
  by (induction ls arbitrary: prev) auto

lemma set_join: "set (join sep ls) \<subseteq> set sep \<union> \<Union> (set ` set ls)"
  by (induction sep ls rule: join.induct) auto


lemma foldl_passes_subset:
  "set (foldl (\<lambda>clean r. replace_all r [] clean) s rs) \<subseteq> set s"
proof (induction rs arbitrary: s)
  case Nil
  then show ?case by simp
next
  case (Cons r rs)
  have "set (foldl (\<lambda>clean r. replace_all r [] clean) (replace_all r [] s) rs)
          \<subseteq> set (replace_all r [] s)"
    by (rule Cons.IH)
  also have "\<dots> \<subseteq> set s" using set_replace_all [of r "[]" s] by simp
  finally show ?case by simp
qed

lemma strip_sequences_clean:
  "c \<in> set (strip_sequences text) \<Longrightarrow> c \<in> set text \<and> \<not> in_ranges removed_chars c"
proof -
  let ?f = "\<lambda>clean r. replace_all r [] clean"
  let ?early = "[osc_esc, osc_bare, csi_esc, csi_bare, esc_keypad, esc_other, iterm_esc,
                 mark_esc, mark_bare, iterm_bare, mode_bare, mouse_bare]"
  let ?x = "foldl ?f text ?early"
  assume c: "c \<in> set (strip_sequences text)"
  have passes: "removal_passes = ?early @ [braille, braille, control, one CR]"
    by (simp add: removal_passes_def)
  have "strip_sequences text = foldl ?f ?x [braille, braille, control, one CR]"
    unfolding strip_sequences_def passes foldl_append ..
  also have "\<dots> = filter (\<lambda>c. \<not> in_ranges [(CR, CR)] c)
                     (filter (\<lambda>c. \<not> in_ranges [(0, 8), (11, 12), (14, 31), (127, 127)] c)
                       (filter (\<lambda>c. \<not> in_ranges [(10240, 10495)] c)
                         (filter (\<lambda>c. \<not> in_ranges [(10240, 10495)] c) ?x)))"
    by (simp only: foldl.simps braille_def control_def one_def replace_all_class)
  finally have eq: "strip_sequences text = filter (\<lambda>c. \<not> in_ranges [(CR, CR)] c)
                     (filter (\<lambda>c. \<not> in_ranges [(0, 8), (11, 12), (14, 31), (127, 127)] c)
                       (filter (\<lambda>c. \<not> in_ranges [(10240, 10495)] c)
                         (filter (\<lambda>c. \<not> in_ranges [(10240, 10495)] c) ?x)))" .
  from c have "c \<in> set ?x" and "\<not> in_ranges [(CR, CR)] c"
    and "\<not> in_ranges [(0, 8), (11, 12), (14, 31), (127, 127)] c"
    and "\<not> in_ranges [(10240, 10495)] c"
    unfolding eq by simp_all
  moreover have "set ?x \<subseteq> set text" by (rule foldl_passes_subset)
  ultimately show ?thesis
    by (auto simp: removed_chars_def CR_def)
qed

lemma stripAnsiCodes_chars:
  assumes "c \<in> set (stripAnsiCodes text)"
  shows "c = LF \<or> c \<in> set (strip_sequences text)"
proof -
  let ?clean = "strip_sequences text"
  let ?lines = "split_char LF ?clean"
  let ?collapsed = "concat (map collapse_line ?lines)"
  let ?filtered = "filter_lines None ?collapsed"
  have "set (stripAnsiCodes text) \<subseteq> set (join [LF] ?filtered) \<union> set [LF, LF]"
    unfolding stripAnsiCodes_def Let_def by (rule set_replace_all)
  with assms have "c = LF \<or> c \<in> set (join [LF] ?filtered)" by auto
  then show ?thesis
  proof
    assume "c = LF" then show ?thesis ..
  next
    assume "c \<in> set (join [LF] ?filtered)"
    then have "c = LF \<or> (\<exists>l \<in> set ?filtered. c \<in> set l)"
      using set_join [of "[LF]" ?filtered] by auto
    then show ?thesis
    proof
      assume "c = LF" then show ?thesis ..
    next
      assume "\<exists>l \<in> set ?filtered. c \<in> set l"
      then obtain l where l: "l \<in> set ?filtered" "c \<in> set l" by blast
      then have "l \<in> set ?collapsed" using set_filter_lines by blast
      then obtain l0 where l0: "l0 \<in> set ?lines" "l \<in> set (collapse_line l0)" by auto
      then have "set l \<subseteq> set l0" "set l0 \<subseteq> set ?clean"
        using set_collapse_line set_split_char by blast+
      with l(2) show ?thesis by auto
    qed
  qed
qed

lemma LF_not_removed: "\<not> in_ranges removed_chars LF"
  by (simp add: removed_chars_def LF_def)

lemma stripAnsiCodes_clean:
  "c \<in> set (stripAnsiCodes text) \<Longrightarrow> \<not> in_ranges removed_chars c"
  using stripAnsiCodes_chars [of c "text"] strip_sequences_clean [of c "text"] LF_not_removed by auto

lemma esc_removed: "in_ranges removed_chars ESC"
  by (simp add: removed_chars_def ESC_def)

lemma no_ESC: "ESC \<notin> set (stripAnsiCodes text)"
  using stripAnsiCodes_clean [of ESC "text"] esc_removed by blast

lemma esc_pass_identity:
  assumes "ESC \<notin> set s"
  shows "replace_all (Seq (one ESC) r) rep s = s"
proof (rule replace_all_no_start)
  show "ms (Seq (one ESC) r) [] = []" by (simp add: one_def)
next
  fix c t assume "c \<in> set s"
  then have "c \<noteq> ESC" using assms by auto
  then show "ms (Seq (one ESC) r) (c # t) = []" by (auto simp: one_def)
qed

lemma class_pass_identity:
  assumes "\<And>c. c \<in> set s \<Longrightarrow> \<not> in_ranges rs c"
  shows "replace_all (Cls True rs) [] s = s"
  unfolding replace_all_class using assms by (simp add: filter_id_conv)

text \<open>
  C8, as amended. For every input, the output of the stripper holds no character of the
  classes the stripper removes one by one: no control character U+0000 to U+001F or
  U+007F other than tab and line feed (so no escape character and no carriage return)
  and no Braille pattern; and the passes that remove the sequences introduced by an
  escape character, the Braille patterns, the control characters and the carriage
  returns leave it unchanged.
\<close>

theorem stripAnsiCodes_output_clean:
  "(\<forall>c \<in> set (stripAnsiCodes text). \<not> in_ranges removed_chars c)
   \<and> (\<forall>r \<in> set [osc_esc, csi_esc, esc_keypad, esc_other, iterm_esc, mark_esc, braille, control, one CR].
         replace_all r [] (stripAnsiCodes text) = stripAnsiCodes text)"
proof -
  let ?y = "stripAnsiCodes text"
  have clean: "\<And>c. c \<in> set ?y \<Longrightarrow> \<not> in_ranges removed_chars c"
    by (rule stripAnsiCodes_clean)
  have e: "\<And>r. replace_all (Seq (one ESC) r) [] ?y = ?y"
    by (rule esc_pass_identity) (rule no_ESC)
  have 1: "replace_all osc_esc [] ?y = ?y" unfolding osc_esc_def seqs.simps by (rule e)
  have 2: "replace_all csi_esc [] ?y = ?y" unfolding csi_esc_def seqs.simps by (rule e)
  have 3: "replace_all esc_keypad [] ?y = ?y" unfolding esc_keypad_def by (rule e)
  have 4: "replace_all esc_other [] ?y = ?y" unfolding esc_other_def seqs.simps by (rule e)
  have 5: "replace_all iterm_esc [] ?y = ?y" unfolding iterm_esc_def seqs.simps by (rule e)
  have 6: "replace_all mark_esc [] ?y = ?y" unfolding mark_esc_def seqs.simps by (rule e)
  have 7: "replace_all braille [] ?y = ?y"
    unfolding braille_def
  proof (rule class_pass_identity)
    fix c assume "c \<in> set ?y"
    from clean [OF this] show "\<not> in_ranges [(10240, 10495)] c"
      by (simp add: removed_chars_def)
  qed
  have 8: "replace_all control [] ?y = ?y"
    unfolding control_def
  proof (rule class_pass_identity)
    fix c assume "c \<in> set ?y"
    from clean [OF this] show "\<not> in_ranges [(0, 8), (11, 12), (14, 31), (127, 127)] c"
      by (simp add: removed_chars_def) arith
  qed
  have 9: "replace_all (one CR) [] ?y = ?y"
    unfolding one_def
  proof (rule class_pass_identity)
    fix c assume "c \<in> set ?y"
    from clean [OF this] show "\<not> in_ranges [(CR, CR)] c"
      by (simp add: removed_chars_def CR_def) arith
  qed
  from clean 1 2 3 4 5 6 7 8 9 show ?thesis by simp
qed

theorem stripAnsiCodes_output_clean_witness:
  "stripAnsiCodes (js ''ab'' @ [ESC] @ js ''[0m'' @ [CR, LF] @ js ''cd'') = js ''ab'' @ [LF] @ js ''cd''
   \<and> replace_all control [] (stripAnsiCodes (js ''ab'' @ [ESC] @ js ''[0m'' @ [CR, LF] @ js ''cd''))
     = stripAnsiCodes (js ''ab'' @ [ESC] @ js ''[0m'' @ [CR, LF] @ js ''cd'')
   \<and> replace_all csi_esc [] (stripAnsiCodes (js ''ab'' @ [ESC] @ js ''[0m'' @ [CR, LF] @ js ''cd''))
     = stripAnsiCodes (js ''ab'' @ [ESC] @ js ''[0m'' @ [CR, LF] @ js ''cd'')"
proof -
  have e: "stripAnsiCodes (js ''ab'' @ [ESC] @ js ''[0m'' @ [CR, LF] @ js ''cd'')
           = js ''ab'' @ [LF] @ js ''cd''"
    by (simp add: string_defs re_defs strip_defs)
  from stripAnsiCodes_output_clean [of "js ''ab'' @ [ESC] @ js ''[0m'' @ [CR, LF] @ js ''cd''"]
  have "replace_all control []
          (stripAnsiCodes (js ''ab'' @ [ESC] @ js ''[0m'' @ [CR, LF] @ js ''cd''))
        = stripAnsiCodes (js ''ab'' @ [ESC] @ js ''[0m'' @ [CR, LF] @ js ''cd'')"
    and "replace_all csi_esc []
          (stripAnsiCodes (js ''ab'' @ [ESC] @ js ''[0m'' @ [CR, LF] @ js ''cd''))
        = stripAnsiCodes (js ''ab'' @ [ESC] @ js ''[0m'' @ [CR, LF] @ js ''cd'')"
    by simp_all
  with e show ?thesis by (simp only: simp_thms)
qed

text \<open>
  C8 as stated fails. Of the three lines \<open>abcdefghijkl\<close>, \<open>%\<close>, \<open>abcdefghijkl\<close> the stripper
  drops the second; run on that output, it finds the two equal lines next to each other
  and drops the second of them.
\<close>

theorem stripAnsiCodes_not_idempotent:
  "stripAnsiCodes (js ''abcdefghijkl'' @ [LF] @ js ''%'' @ [LF] @ js ''abcdefghijkl'')
     = js ''abcdefghijkl'' @ [LF] @ js ''abcdefghijkl''
   \<and> stripAnsiCodes (js ''abcdefghijkl'' @ [LF] @ js ''abcdefghijkl'') = js ''abcdefghijkl''
   \<and> stripAnsiCodes (stripAnsiCodes (js ''abcdefghijkl'' @ [LF] @ js ''%'' @ [LF] @ js ''abcdefghijkl''))
     \<noteq> stripAnsiCodes (js ''abcdefghijkl'' @ [LF] @ js ''%'' @ [LF] @ js ''abcdefghijkl'')"
proof -
  have a: "stripAnsiCodes (js ''abcdefghijkl'' @ [LF] @ js ''%'' @ [LF] @ js ''abcdefghijkl'')
             = js ''abcdefghijkl'' @ [LF] @ js ''abcdefghijkl''"
    by (simp add: string_defs re_defs strip_defs)
  have b: "stripAnsiCodes (js ''abcdefghijkl'' @ [LF] @ js ''abcdefghijkl'') = js ''abcdefghijkl''"
    by (simp add: string_defs re_defs strip_defs)
  have c: "js ''abcdefghijkl'' \<noteq> js ''abcdefghijkl'' @ [LF] @ js ''abcdefghijkl''"
    by (simp add: js_def)
  from a b c show ?thesis by (simp only: simp_thms)
qed

section \<open>The block segmenter\<close>


lemma split_char_no_sep: "l \<in> set (split_char c s) \<Longrightarrow> c \<notin> set l"
  by (induction s arbitrary: l) (auto split: if_splits list.splits)














lemma trace_okI:
  assumes "fst st = map block_of_lines gs" and "snd st = map_option block_of_lines og"
    and "list_all group_ok (gs @ open_group og)"
    and "subseq (concat (map snd (gs @ open_group og))) pre"
  shows "trace_ok st pre"
  unfolding trace_ok_def using assms by blast

lemma subseq_snoc_both: "subseq xs ys \<Longrightarrow> subseq (xs @ [l]) (ys @ [l])"
  by (simp add: list_emb_append_mono)

lemma subseq_snoc_right: "subseq xs ys \<Longrightarrow> subseq xs (ys @ [l])"
  by (rule list_emb_prefix)

lemma btype_block_of_lines: "btype (block_of_lines g) = fst g"
  by (cases g rule: block_of_lines.cases) simp_all

lemma parse_step_trace_ok:
  assumes "trace_ok st pre"
  shows "trace_ok (parse_step st l) (pre @ [l])"
proof -
  from assms obtain gs og where
    f: "fst st = map block_of_lines gs" and s: "snd st = map_option block_of_lines og"
    and ok: "list_all group_ok (gs @ open_group og)"
    and sub: "subseq (concat (map snd (gs @ open_group og))) pre"
    unfolding trace_ok_def by blast
  obtain blocks cur where st: "st = (blocks, cur)" by (cases st)
  have blocks: "blocks = map block_of_lines gs" using f st by simp
  have cur: "cur = map_option block_of_lines og" using s st by simp
  have saved: "(case cur of None \<Rightarrow> blocks | Some b \<Rightarrow> blocks @ [b])
                 = map block_of_lines (gs @ open_group og)"
    using blocks cur by (cases og) (simp_all add: open_group_def)
  show ?thesis
  proof (cases "trim l = []")
    case blank: True
    show ?thesis
    proof (cases og)
      case None
      have "parse_step st l = st"
        using blank cur None st by (simp add: parse_step_def)
      then show ?thesis
        using f s ok sub by (intro trace_okI [of _ gs og]) (simp_all add: subseq_snoc_right)
    next
      case (Some g)
      obtain k ls where g: "g = (k, ls)" by (cases g)
      show ?thesis
      proof (cases k)
        case Command
        have "parse_step st l = st"
          using blank cur Some g Command st by (simp add: parse_step_def)
        then show ?thesis
          using f s ok sub by (intro trace_okI [of _ gs og]) (simp_all add: subseq_snoc_right)
      next
        case Output
        have step: "parse_step st l = (blocks, Some (block_of_lines (Output, ls @ [l])))"
          using blank cur Some g Output st by (simp add: parse_step_def)
        have ok': "list_all group_ok (gs @ open_group (Some (Output, ls @ [l])))"
          using ok Some g Output blank by (simp add: open_group_def)
        have sub': "subseq (concat (map snd (gs @ open_group (Some (Output, ls @ [l]))))) (pre @ [l])"
          using subseq_snoc_both [OF sub, of l] Some g Output by (simp add: open_group_def)
        show ?thesis
          using step blocks ok' sub'
          by (intro trace_okI [of _ gs "Some (Output, ls @ [l])"]) simp_all
      qed
    qed
  next
    case nonblank: False
    show ?thesis
    proof (cases "isCommandLine l")
      case True
      show ?thesis
      proof (cases "extractCommand l = []")
        case empty: True
        have step: "parse_step st l = (map block_of_lines (gs @ open_group og), None)"
          using nonblank True empty saved st by (simp add: parse_step_def Let_def)
        show ?thesis
          using step ok sub
          by (intro trace_okI [of _ "gs @ open_group og" None])
            (simp_all add: open_group_def subseq_snoc_right)
      next
        case False
        have step: "parse_step st l
                    = (map block_of_lines (gs @ open_group og), Some (block_of_lines (Command, [l])))"
          using nonblank True False saved st by (simp add: parse_step_def Let_def)
        have ok': "list_all group_ok ((gs @ open_group og) @ open_group (Some (Command, [l])))"
          using ok True by (simp add: open_group_def)
        have sub': "subseq (concat (map snd ((gs @ open_group og) @ open_group (Some (Command, [l])))))
                      (pre @ [l])"
          using subseq_snoc_both [OF sub, of l] by (simp add: open_group_def)
        show ?thesis
          using step ok' sub'
          by (intro trace_okI [of _ "gs @ open_group og" "Some (Command, [l])"]) simp_all
      qed
    next
      case nc: False
      show ?thesis
      proof (cases og)
        case None
        have step: "parse_step st l = (blocks, Some (block_of_lines (Output, [l])))"
          using nonblank nc cur None st by (simp add: parse_step_def)
        have ok': "list_all group_ok (gs @ open_group (Some (Output, [l])))"
          using ok None nc by (simp add: open_group_def)
        have sub': "subseq (concat (map snd (gs @ open_group (Some (Output, [l]))))) (pre @ [l])"
          using subseq_snoc_both [OF sub, of l] None by (simp add: open_group_def)
        show ?thesis
          using step blocks ok' sub'
          by (intro trace_okI [of _ gs "Some (Output, [l])"]) simp_all
      next
        case (Some g)
        obtain k ls where g: "g = (k, ls)" by (cases g)
        show ?thesis
        proof (cases k)
          case Command
          have step: "parse_step st l
                      = (map block_of_lines (gs @ [g]), Some (block_of_lines (Output, [l])))"
            using nonblank nc cur Some g Command blocks st by (simp add: parse_step_def)
          have ok': "list_all group_ok ((gs @ [g]) @ open_group (Some (Output, [l])))"
            using ok Some nc by (simp add: open_group_def)
          have sub': "subseq (concat (map snd ((gs @ [g]) @ open_group (Some (Output, [l])))))
                        (pre @ [l])"
            using subseq_snoc_both [OF sub, of l] Some by (simp add: open_group_def)
          show ?thesis
            using step ok' sub'
            by (intro trace_okI [of _ "gs @ [g]" "Some (Output, [l])"]) simp_all
        next
          case Output
          have step: "parse_step st l = (blocks, Some (block_of_lines (Output, ls @ [l])))"
            using nonblank nc cur Some g Output st by (simp add: parse_step_def)
          have ok': "list_all group_ok (gs @ open_group (Some (Output, ls @ [l])))"
            using ok Some g Output nc by (simp add: open_group_def)
          have sub': "subseq (concat (map snd (gs @ open_group (Some (Output, ls @ [l]))))) (pre @ [l])"
            using subseq_snoc_both [OF sub, of l] Some g Output by (simp add: open_group_def)
          show ?thesis
            using step blocks ok' sub'
            by (intro trace_okI [of _ gs "Some (Output, ls @ [l])"]) simp_all
        qed
      qed
    qed
  qed
qed

lemma foldl_parse_step_trace_ok:
  "trace_ok st pre \<Longrightarrow> trace_ok (foldl parse_step st ls) (pre @ ls)"
proof (induction ls arbitrary: st pre)
  case Nil
  then show ?case by simp
next
  case (Cons l ls)
  from Cons.IH [OF parse_step_trace_ok [OF Cons.prems, of l]] show ?case by simp
qed

lemma set_replace_start: "set (replace_start r s) \<subseteq> set s"
  using ms_head_subset [of r s] by (auto simp: replace_start_def split: list.splits)

lemma set_extractCommand: "set (extractCommand l) \<subseteq> set l"
proof -
  have "set (extractCommand l) \<subseteq> set (trim l)"
    unfolding extractCommand_def
    using set_replace_start by (meson subset_trans)
  then show ?thesis using set_trim [of l] by blast
qed

lemma command_block_one_line:
  assumes "LF \<notin> set l"
  shows "length (filter (\<lambda>c. c = LF) (content (block_of_lines (Command, [l])))) = 1"
proof -
  have "LF \<notin> set (extractCommand l)" using assms set_extractCommand by blast
  then have "filter (\<lambda>c. c = LF) (extractCommand l) = []"
    by (auto simp: filter_empty_conv)
  then show ?thesis by (simp add: js_def LF_def)
qed

lemma command_group_line:
  assumes "list_all group_ok gs" and "g \<in> set gs" and "fst g = Command"
  shows "\<exists>l. g = (Command, [l]) \<and> l \<in> set (concat (map snd gs))"
proof -
  obtain k ls where g: "g = (k, ls)" by (cases g)
  with assms(3) have k: "k = Command" by simp
  from assms(1,2) have "group_ok g" by (simp add: list_all_iff)
  with g k have "length ls = 1" by simp
  then obtain l where l: "ls = [l]" by (cases ls) auto
  have "l \<in> set (concat (map snd gs))" using assms(2) g l by force
  with g k l show ?thesis by blast
qed

text \<open>
  C6. The blocks are the blocks of groups of source lines: a command block stands for
  exactly one line, a command line, and so holds one command and no output line (its
  content is a single line: it has one line feed, at its end); an output block stands
  for any number of lines, none of them a command line; and the lines of the groups,
  taken block after block, follow one another as in the input.
\<close>

theorem blocks_from_lines_in_order:
  "\<exists>groups. parseTerminalOutput output = map block_of_lines groups
      \<and> list_all group_ok groups
      \<and> subseq (concat (map snd groups)) (split_char LF output)
      \<and> (\<forall>b \<in> set (parseTerminalOutput output).
            btype b = Command \<longrightarrow> length (filter (\<lambda>c. c = LF) (content b)) = 1)"
proof -
  let ?st = "foldl parse_step ([], None) (split_char LF output)"
  have "trace_ok ([], None) []"
    by (intro trace_okI [of _ "[]" None]) (simp_all add: open_group_def)
  from foldl_parse_step_trace_ok [OF this, of "split_char LF output"]
  have "trace_ok ?st (split_char LF output)" by simp
  then obtain gs og where
    f: "fst ?st = map block_of_lines gs" and s: "snd ?st = map_option block_of_lines og"
    and ok: "list_all group_ok (gs @ open_group og)"
    and sub: "subseq (concat (map snd (gs @ open_group og))) (split_char LF output)"
    unfolding trace_ok_def by blast
  let ?G = "gs @ open_group og"
  have eq: "parseTerminalOutput output = map block_of_lines ?G"
    using f s by (cases og) (simp_all add: parseTerminalOutput_def Let_def open_group_def)
  have one: "\<forall>b \<in> set (parseTerminalOutput output).
               btype b = Command \<longrightarrow> length (filter (\<lambda>c. c = LF) (content b)) = 1"
  proof (intro ballI impI)
    fix b assume b: "b \<in> set (parseTerminalOutput output)" and c: "btype b = Command"
    from b eq obtain g where g: "g \<in> set ?G" "b = block_of_lines g" by auto
    with c have "fst g = Command" by (simp add: btype_block_of_lines)
    from command_group_line [OF ok g(1) this]
    obtain l where l: "g = (Command, [l])" "l \<in> set (concat (map snd ?G))" by blast
    from list_emb_set [OF sub l(2)] have "l \<in> set (split_char LF output)" by metis
    then have "LF \<notin> set l" by (rule split_char_no_sep)
    from command_block_one_line [OF this] g(2) l(1)
    show "length (filter (\<lambda>c. c = LF) (content b)) = 1" by simp
  qed
  from eq ok sub one show ?thesis by blast
qed

theorem blocks_from_lines_in_order_witness:
  "parseTerminalOutput (js ''$ ls'' @ [LF] @ js ''file.txt'' @ [LF])
     = map block_of_lines [(Command, [js ''$ ls'']), (Output, [js ''file.txt'', []])]
   \<and> list_all group_ok [(Command, [js ''$ ls'']), (Output, [js ''file.txt'', []])]
   \<and> subseq (concat (map snd [(Command, [js ''$ ls'']), (Output, [js ''file.txt'', []])]))
        (split_char LF (js ''$ ls'' @ [LF] @ js ''file.txt'' @ [LF]))"
  using blocks_from_lines_in_order [of "js ''$ ls'' @ [LF] @ js ''file.txt'' @ [LF]"]
  by (simp add: string_defs re_defs classifier_defs glyphs_def)

section \<open>The timeline\<close>















text \<open>The sort is stable: a key and NaN, which the comparator ties, keep their order.\<close>

lemma sort_numbers_ties:
  "sort_numbers [Finite 1, NaN] = [Finite 1, NaN]"
  "sort_numbers [NaN, Finite 1] = [NaN, Finite 1]"
  "sort_numbers [Finite 2, PosInf, Finite 1, NegInf] = [NegInf, Finite 1, Finite 2, PosInf]"
  by (simp_all add: sort_numbers_def)















end
